theory Spec2Isabelle
  imports Complex_Main "HOL-Library.Word"
begin

section \<open>Numbers and their decimal text\<close>

text \<open>
  The TypeScript sources compute with JavaScript numbers. A finite number is modelled by the
  exact rational it denotes; the three special values that the code really produces
  (\<open>Infinity\<close>, \<open>-Infinity\<close> and \<open>NaN\<close>) are kept apart. Zero is unsigned. Rounding of the
  finite arithmetic to 53 bits is not modelled.
\<close>

datatype jsnum = Fin rat | PInf | NInf | NaN

text \<open>\<open>Number.prototype.toString\<close> on a non-negative integer (below \<open>1e21\<close>).\<close>

definition digit_char :: "nat \<Rightarrow> char" where
  "digit_char d = ''0123456789'' ! d"

function show_nat :: "nat \<Rightarrow> string" where
  "show_nat n = (if n < 10 then [digit_char n] else show_nat (n div 10) @ [digit_char (n mod 10)])"
  by pat_completeness auto
termination
  by (relation "measure id") auto

declare show_nat.simps [simp del]

text \<open>\<open>String.prototype.padStart(k, "0")\<close>.\<close>

definition padStart :: "nat \<Rightarrow> string \<Rightarrow> string" where
  "padStart k s = replicate (k - length s) CHR ''0'' @ s"

fun jneg :: "jsnum \<Rightarrow> jsnum" where
  "jneg (Fin a) = Fin (- a)"
| "jneg PInf = NInf"
| "jneg NInf = PInf"
| "jneg NaN = NaN"

fun jadd :: "jsnum \<Rightarrow> jsnum \<Rightarrow> jsnum" where
  "jadd NaN b = NaN"
| "jadd a NaN = NaN"
| "jadd PInf NInf = NaN"
| "jadd NInf PInf = NaN"
| "jadd PInf b = PInf"
| "jadd a PInf = PInf"
| "jadd NInf b = NInf"
| "jadd a NInf = NInf"
| "jadd (Fin a) (Fin b) = Fin (a + b)"

definition jsub :: "jsnum \<Rightarrow> jsnum \<Rightarrow> jsnum" where
  "jsub a b = jadd a (jneg b)"

text \<open>Division; a zero divisor is the positive zero that the literal \<open>0\<close> denotes.\<close>

fun jdiv :: "jsnum \<Rightarrow> jsnum \<Rightarrow> jsnum" where
  "jdiv NaN b = NaN"
| "jdiv a NaN = NaN"
| "jdiv (Fin a) (Fin b) =
     (if b = 0 then (if 0 < a then PInf else if a < 0 then NInf else NaN) else Fin (a / b))"
| "jdiv (Fin a) b = Fin 0"
| "jdiv PInf (Fin b) = (if 0 \<le> b then PInf else NInf)"
| "jdiv NInf (Fin b) = (if 0 \<le> b then NInf else PInf)"
| "jdiv a b = NaN"

text \<open>\<open>Math.round\<close> rounds half-way cases up; \<open>Math.ceil\<close>; \<open>Math.min\<close> and \<open>Math.max\<close>.\<close>

fun jround :: "jsnum \<Rightarrow> jsnum" where
  "jround (Fin a) = Fin (of_int \<lfloor>a + 1 / 2\<rfloor>)"
| "jround a = a"

fun jceil :: "jsnum \<Rightarrow> jsnum" where
  "jceil (Fin a) = Fin (of_int \<lceil>a\<rceil>)"
| "jceil a = a"

fun jmin :: "jsnum \<Rightarrow> jsnum \<Rightarrow> jsnum" where
  "jmin NaN b = NaN"
| "jmin a NaN = NaN"
| "jmin NInf b = NInf"
| "jmin a NInf = NInf"
| "jmin PInf b = b"
| "jmin a PInf = a"
| "jmin (Fin a) (Fin b) = Fin (min a b)"

fun jmax :: "jsnum \<Rightarrow> jsnum \<Rightarrow> jsnum" where
  "jmax NaN b = NaN"
| "jmax a NaN = NaN"
| "jmax PInf b = PInf"
| "jmax a PInf = PInf"
| "jmax NInf b = b"
| "jmax a NInf = a"
| "jmax (Fin a) (Fin b) = Fin (max a b)"

section \<open>The elevation tile store (\<open>srtm-parser.ts\<close>)\<close>

record BoundingBox =
  west :: rat
  east :: rat
  south :: rat
  north :: rat

text \<open>
  A tile is the \<open>Int16Array\<close> of \<open>3601 * 3601\<close> samples that \<open>loadTile\<close> fills from the file,
  given by its sample at each index from \<open>0\<close> to \<open>3601 * 3601 - 1\<close>. The directory of
  \<open>.hgt\<close> files is a map from tile name to what the file decodes to; \<open>Short\<close> is a file
  with fewer bytes than the samples need, where \<open>readInt16BE\<close> raises.
\<close>

type_synonym tile = "int \<Rightarrow> 16 word"

datatype hgtfile = Hgt tile | Short

type_synonym files = "string \<rightharpoonup> hgtfile"

datatype error = TileNotFound string | RangeError | TypeError | ZeroStep

text \<open>
  The parser object: its tile cache, and the lines it has written with \<open>console.warn\<close>
  (progress lines of \<open>console.log\<close> are left out).
\<close>

record SRTMParser =
  tiles :: "string \<rightharpoonup> tile"
  warnings :: "string list"

definition newSRTMParser :: SRTMParser where
  "newSRTMParser = \<lparr>tiles = Map.empty, warnings = []\<rparr>"

definition getTileName :: "rat \<Rightarrow> rat \<Rightarrow> string" where
  "getTileName lat lon =
     (let latPrefix = (if 0 \<le> lat then ''N'' else ''S'');
          lonPrefix = (if 0 \<le> lon then ''E'' else ''W'');
          latNum = padStart 2 (show_nat (nat \<lfloor>\<bar>lat\<bar>\<rfloor>));
          lonNum = padStart 3 (show_nat (nat \<lfloor>\<bar>lon\<bar>\<rfloor>))
      in latPrefix @ latNum @ lonPrefix @ lonNum)"

text \<open>
  The tile name as the specification words it: the hemisphere-prefixed, zero-padded
  encoding of the integer floors of latitude and longitude.
\<close>

definition floorTileName :: "rat \<Rightarrow> rat \<Rightarrow> string" where
  "floorTileName lat lon =
     (if 0 \<le> \<lfloor>lat\<rfloor> then ''N'' else ''S'') @ padStart 2 (show_nat (nat \<bar>\<lfloor>lat\<rfloor>\<bar>))
     @ (if 0 \<le> \<lfloor>lon\<rfloor> then ''E'' else ''W'') @ padStart 3 (show_nat (nat \<bar>\<lfloor>lon\<rfloor>\<bar>))"

definition loadTile :: "files \<Rightarrow> string \<Rightarrow> SRTMParser \<Rightarrow> (error + tile) \<times> SRTMParser" where
  "loadTile fs tileName p =
     (case tiles p tileName of
        Some t \<Rightarrow> (Inr t, p)
      | None \<Rightarrow>
          (case fs tileName of
             None \<Rightarrow> (Inl (TileNotFound tileName), p)
           | Some Short \<Rightarrow> (Inl RangeError, p)
           | Some (Hgt t) \<Rightarrow> (Inr t, p\<lparr>tiles := (tiles p)(tileName \<mapsto> t)\<rparr>)))"

text \<open>
  The index into the tile that \<open>getElevation\<close> computes; it is at least \<open>0\<close> and below
  \<open>3601 * 3601\<close> for every latitude and longitude (\<open>sampleIndex_in_tile\<close> below), so the
  read never leaves the array.
\<close>

definition sampleIndex :: "rat \<Rightarrow> rat \<Rightarrow> int" where
  "sampleIndex lat lon =
     (let samples = 3601;
          tileLat = \<lfloor>lat\<rfloor>;
          tileLon = \<lfloor>lon\<rfloor>;
          latOffset = lat - of_int tileLat;
          lonOffset = lon - of_int tileLon;
          row = \<lfloor>(1 - latOffset) * (of_int samples - 1)\<rfloor>;
          col = \<lfloor>lonOffset * (of_int samples - 1)\<rfloor>
      in row * samples + col)"

definition getElevation :: "files \<Rightarrow> rat \<Rightarrow> rat \<Rightarrow> SRTMParser \<Rightarrow> (error + int) \<times> SRTMParser" where
  "getElevation fs lat lon p =
     (let tileName = getTileName lat lon in
      case loadTile fs tileName p of
        (Inl e, p') \<Rightarrow> (Inl e, p')
      | (Inr tile, p') \<Rightarrow>
          (let elevation = sint (tile (sampleIndex lat lon))
           in (Inr (if elevation = - 32768 then 0 else elevation), p')))"

text \<open>
  The result of \<open>loadBoundingBox\<close>. Its field \<open>getElevation\<close> is the method of the parser
  above. \<open>data\<close> is an \<open>Int16Array\<close>.
\<close>

record ElevationData =
  width :: int
  height :: int
  minLat :: rat
  maxLat :: rat
  minLon :: rat
  maxLon :: rat
  minElevation :: jsnum
  maxElevation :: jsnum
  data :: "16 word list"

definition arcSecond :: rat where
  "arcSecond = 1 / 3600"

text \<open>The body of the loop that loads the tiles of the box; a failed load is caught.\<close>

definition preloadTile :: "files \<Rightarrow> int \<Rightarrow> int \<Rightarrow> SRTMParser \<Rightarrow> SRTMParser" where
  "preloadTile fs lat lon p =
     (let tileName = getTileName (of_int lat) (of_int lon) in
      case loadTile fs tileName p of
        (Inr t, p') \<Rightarrow> p'
      | (Inl e, p') \<Rightarrow> p'\<lparr>warnings := warnings p' @ [''Warning: Could not load tile '' @ tileName]\<rparr>)"

text \<open>The variables of the sampling loops and the body of the inner one.\<close>

record sampling =
  sampler :: SRTMParser
  cells :: "16 word list"
  minElev :: jsnum
  maxElev :: jsnum

definition sampleCell :: "files \<Rightarrow> BoundingBox \<Rightarrow> int \<Rightarrow> nat \<Rightarrow> nat \<Rightarrow> sampling \<Rightarrow> sampling" where
  "sampleCell fs b w row col s =
     (let lat = north b - of_nat row * arcSecond;
          lon = west b + of_nat col * arcSecond in
      case getElevation fs lat lon (sampler s) of
        (Inr elev, p') \<Rightarrow>
          (let s' = s\<lparr>sampler := p', cells := (cells s)[row * nat w + col := word_of_int elev]\<rparr>
           in if - 1000 < elev
              then s'\<lparr>minElev := jmin (minElev s) (Fin (of_int elev)),
                      maxElev := jmax (maxElev s) (Fin (of_int elev))\<rparr>
              else s')
      | (Inl e, p') \<Rightarrow> s\<lparr>sampler := p', cells := (cells s)[row * nat w + col := 0]\<rparr>)"

text \<open>\<open>new Int16Array(n)\<close> raises a \<open>RangeError\<close> for a negative length.\<close>

definition loadBoundingBox :: "files \<Rightarrow> BoundingBox \<Rightarrow> SRTMParser \<Rightarrow> (error + ElevationData) \<times> SRTMParser" where
  "loadBoundingBox fs b p =
     (let minTileLat = \<lfloor>south b\<rfloor>;
          maxTileLat = \<lfloor>north b\<rfloor>;
          minTileLon = \<lfloor>west b\<rfloor>;
          maxTileLon = \<lfloor>east b\<rfloor>;
          p1 = fold (\<lambda>lat. fold (\<lambda>lon. preloadTile fs lat lon) [minTileLon..maxTileLon])
                 [minTileLat..maxTileLat] p;
          w = \<lceil>(east b - west b) / arcSecond\<rceil>;
          h = \<lceil>(north b - south b) / arcSecond\<rceil>
      in if w * h < 0 then (Inl RangeError, p1)
         else
           (let s = fold (\<lambda>row. fold (\<lambda>col. sampleCell fs b w row col) [0..<nat w]) [0..<nat h]
                      \<lparr>sampler = p1, cells = replicate (nat (w * h)) 0,
                       minElev = PInf, maxElev = NInf\<rparr>
            in (Inr \<lparr>width = w, height = h,
                     minLat = south b, maxLat = north b, minLon = west b, maxLon = east b,
                     minElevation = minElev s, maxElevation = maxElev s,
                     data = cells s\<rparr>,
                sampler s)))"

section \<open>The height field builder (\<open>generateHeightmap\<close>)\<close>

record HeightMap =
  hm_width :: int
  hm_length :: int
  heights :: "jsnum list list"
  minY :: jsnum
  maxY :: jsnum

record TerrainConfig =
  scale :: rat
  baseY :: rat
  bbox :: BoundingBox
  downsample :: rat

text \<open>
  The variables of the two loops (\<open>hs_row\<close> is the row being filled) and their bodies.
\<close>

record hscan =
  hs_parser :: SRTMParser
  hs_row :: "int list"
  hs_heights :: "int list list"
  hs_min :: jsnum
  hs_max :: jsnum

definition heightCell :: "files \<Rightarrow> BoundingBox \<Rightarrow> rat \<Rightarrow> nat \<Rightarrow> nat \<Rightarrow> hscan \<Rightarrow> hscan" where
  "heightCell fs b step z x s =
     (let lat = north b - of_nat z * step;
          lon = west b + of_nat x * step in
      case getElevation fs lat lon (hs_parser s) of
        (Inr elev, p') \<Rightarrow>
          (let s' = (if - 1000 < elev
                     then s\<lparr>hs_parser := p',
                            hs_min := jmin (hs_min s) (Fin (of_int elev)),
                            hs_max := jmax (hs_max s) (Fin (of_int elev))\<rparr>
                     else s\<lparr>hs_parser := p'\<rparr>)
           in s'\<lparr>hs_row := hs_row s' @ [if - 1000 < elev then elev else 0]\<rparr>)
      | (Inl e, p') \<Rightarrow> s\<lparr>hs_parser := p', hs_row := hs_row s @ [0]\<rparr>)"

definition heightRow :: "files \<Rightarrow> BoundingBox \<Rightarrow> rat \<Rightarrow> int \<Rightarrow> nat \<Rightarrow> hscan \<Rightarrow> hscan" where
  "heightRow fs b step w z s =
     (let s' = fold (heightCell fs b step z) [0..<nat w] (s\<lparr>hs_row := []\<rparr>)
      in s'\<lparr>hs_heights := hs_heights s' @ [hs_row s']\<rparr>)"

text \<open>The two loops of \<open>generateHeightmap\<close>, up to the conversion to levels.\<close>

definition scanHeights :: "files \<Rightarrow> TerrainConfig \<Rightarrow> SRTMParser \<Rightarrow> hscan" where
  "scanHeights fs cfg p =
     (let b = bbox cfg;
          step = arcSecond * downsample cfg;
          w = \<lceil>(east b - west b) / step\<rceil>;
          len = \<lceil>(north b - south b) / step\<rceil>
      in fold (heightRow fs b step w) [0..<nat len]
           \<lparr>hs_parser = p, hs_row = [], hs_heights = [], hs_min = PInf, hs_max = NInf\<rparr>)"

text \<open>The level of an elevation: \<open>config.baseY + Math.round((elev - minElev) / config.scale)\<close>.\<close>

definition levelOf :: "TerrainConfig \<Rightarrow> jsnum \<Rightarrow> int \<Rightarrow> jsnum" where
  "levelOf cfg lowest elev =
     jadd (Fin (baseY cfg)) (jround (jdiv (jsub (Fin (of_int elev)) lowest) (Fin (scale cfg))))"

text \<open>
  With a zero step (\<open>downsample = 0\<close>) the dimensions are not finite numbers: the loops do
  not end, or the heightmap carries \<open>NaN\<close> or \<open>-Infinity\<close> as a dimension. The model stops
  there with \<open>ZeroStep\<close>, which stands for no exception of the program.
\<close>

definition generateHeightmap :: "files \<Rightarrow> TerrainConfig \<Rightarrow> SRTMParser \<Rightarrow> (error + HeightMap) \<times> SRTMParser" where
  "generateHeightmap fs cfg p =
     (let b = bbox cfg;
          step = arcSecond * downsample cfg
      in if step = 0 then (Inl ZeroStep, p)
         else
           (let w = \<lceil>(east b - west b) / step\<rceil>;
                len = \<lceil>(north b - south b) / step\<rceil>;
                s = scanHeights fs cfg p;
                yHeights = map (map (levelOf cfg (hs_min s))) (hs_heights s);
                lowY = Fin (baseY cfg);
                highY = jadd (Fin (baseY cfg))
                          (jceil (jdiv (jsub (hs_max s) (hs_min s)) (Fin (scale cfg))))
            in (Inr \<lparr>hm_width = w, hm_length = len, heights = yHeights,
                     minY = lowY, maxY = highY\<rparr>,
                hs_parser s)))"

subsection \<open>What the queries compute\<close>

text \<open>
  A parser only ever caches what it has read from the files, so every parser that the
  program reaches is \<open>consistent\<close> with them. For such a parser a load and a point query
  are functions of the files alone: \<open>fileTile\<close> and \<open>pointElevation\<close>. \<open>cellWord\<close> is what
  the region query stores for a cell and \<open>cellElev\<close> what the heightmap build keeps.
\<close>

definition consistent :: "files \<Rightarrow> SRTMParser \<Rightarrow> bool" where
  "consistent fs p = (\<forall>n t. tiles p n = Some t \<longrightarrow> fs n = Some (Hgt t))"

definition fileTile :: "files \<Rightarrow> string \<Rightarrow> error + tile" where
  "fileTile fs n =
     (case fs n of
        None \<Rightarrow> Inl (TileNotFound n)
      | Some Short \<Rightarrow> Inl RangeError
      | Some (Hgt t) \<Rightarrow> Inr t)"

definition pointElevation :: "files \<Rightarrow> rat \<Rightarrow> rat \<Rightarrow> error + int" where
  "pointElevation fs lat lon =
     (case fileTile fs (getTileName lat lon) of
        Inl e \<Rightarrow> Inl e
      | Inr t \<Rightarrow>
          (let elevation = sint (t (sampleIndex lat lon))
           in Inr (if elevation = - 32768 then 0 else elevation)))"

definition cellWord :: "files \<Rightarrow> BoundingBox \<Rightarrow> nat \<Rightarrow> nat \<Rightarrow> 16 word" where
  "cellWord fs b row col =
     (case pointElevation fs (north b - of_nat row * arcSecond) (west b + of_nat col * arcSecond) of
        Inl e \<Rightarrow> 0
      | Inr elev \<Rightarrow> word_of_int elev)"

definition cellElev :: "files \<Rightarrow> BoundingBox \<Rightarrow> rat \<Rightarrow> nat \<Rightarrow> nat \<Rightarrow> int" where
  "cellElev fs b step z x =
     (case pointElevation fs (north b - of_nat z * step) (west b + of_nat x * step) of
        Inl e \<Rightarrow> 0
      | Inr elev \<Rightarrow> if - 1000 < elev then elev else 0)"

text \<open>Files and boxes to run the queries on.\<close>

definition flatFiles :: files where
  "flatFiles = [''N46E028'' \<mapsto> Hgt (\<lambda>i. 100)]"

definition borderBox :: BoundingBox where
  "borderBox = \<lparr>west = 29 - 1 / 7200, east = 29 + 1 / 3600,
                 south = 46 + 1 / 2 - 1 / 7200, north = 46 + 1 / 2\<rparr>"

definition eastBox :: BoundingBox where
  "eastBox = \<lparr>west = 29 + 1 / 7200, east = 29 + 1 / 7200 + 1 / 2400,
               south = 46 + 1 / 2 - 1 / 7200, north = 46 + 1 / 2\<rparr>"


definition zeroScaleConfig :: TerrainConfig where
  "zeroScaleConfig = \<lparr>scale = 0, baseY = 64, bbox = borderBox, downsample = 1\<rparr>"

definition degenerateConfig :: TerrainConfig where
  "degenerateConfig = \<lparr>scale = - 30, baseY = 64,
     bbox = \<lparr>west = 29, east = 28, south = 47, north = 46\<rparr>, downsample = 1\<rparr>"

definition holeFiles :: files where
  "holeFiles = [''N46E028'' \<mapsto> Hgt (\<lambda>i. if i = 6481801 then - 32768 else 100)]"

definition holeBox :: BoundingBox where
  "holeBox = \<lparr>west = 28 + 1 / 7200, east = 28 + 1 / 7200 + 1 / 2400,
               south = 46 + 1 / 2 - 1 / 7200, north = 46 + 1 / 2\<rparr>"

section \<open>The command emitter (\<open>generateChunkCommands\<close>)\<close>

text \<open>
  One emitted line \<open>fill ~x1 ~y1 ~z1 ~x2 ~y2 ~z2 block\<close>. The \<open>x\<close> and \<open>z\<close> offsets are loop
  counters; the \<open>y\<close> offsets are computed from levels.
\<close>

datatype fill = Fill (fx1: nat) (fy1: jsnum) (fz1: nat) (fx2: nat) (fy2: jsnum) (fz2: nat) (fblock: string)

text \<open>
  \<open>row[x]\<close>: reading past the end of an array gives \<open>undefined\<close> (\<open>None\<close>), which arithmetic
  turns into \<open>NaN\<close> (the surface line would print it as \<open>undefined\<close>; neither is a
  coordinate). \<open>strictNeq\<close> is \<open>!==\<close> on such values.
\<close>

definition cellOf :: "jsnum list \<Rightarrow> nat \<Rightarrow> jsnum option" where
  "cellOf row x = (if x < length row then Some (row ! x) else None)"

definition numOf :: "jsnum option \<Rightarrow> jsnum" where
  "numOf v = (case v of None \<Rightarrow> NaN | Some a \<Rightarrow> a)"

definition strictNeq :: "jsnum option \<Rightarrow> jsnum option \<Rightarrow> bool" where
  "strictNeq a b = (a = Some NaN \<or> b = Some NaN \<or> a \<noteq> b)"

text \<open>The three \<open>commands.push\<close> calls that end a run.\<close>

definition closeRun :: "jsnum \<Rightarrow> nat \<Rightarrow> nat \<Rightarrow> nat \<Rightarrow> jsnum option \<Rightarrow> fill list" where
  "closeRun minY' z runStart runEnd runHeight =
     [Fill runStart (jsub minY' (Fin 4)) z runEnd (jsub (numOf runHeight) (Fin 4)) z ''stone'',
      Fill runStart (jsub (numOf runHeight) (Fin 3)) z runEnd (jsub (numOf runHeight) (Fin 1)) z ''dirt'',
      Fill runStart (numOf runHeight) z runEnd (numOf runHeight) z ''grass_block'']"

text \<open>
  The inner loop \<open>for (x = startX + 1; x <= endX; x++)\<close> with its variables \<open>runStart\<close> and
  \<open>runHeight\<close>; the result is what the loop appends to \<open>commands\<close>, in order.
\<close>

function rowRuns :: "jsnum \<Rightarrow> jsnum list \<Rightarrow> nat \<Rightarrow> nat \<Rightarrow> nat \<Rightarrow> nat \<Rightarrow> jsnum option \<Rightarrow> fill list" where
  "rowRuns minY' row z endX x runStart runHeight =
     (if x \<le> endX then
        (if strictNeq (if x < endX then cellOf row x else Some (Fin (- 1))) runHeight \<or> x = endX
         then closeRun minY' z runStart (x - 1) runHeight
              @ rowRuns minY' row z endX (x + 1) x (if x < endX then cellOf row x else Some (Fin (- 1)))
         else rowRuns minY' row z endX (x + 1) runStart runHeight)
      else [])"
  by pat_completeness auto
termination
  by (relation "measure (\<lambda>(minY', row, z, endX, x, runStart, runHeight). Suc endX - x)") auto

declare rowRuns.simps [simp del]

text \<open>
  The outer loop over \<open>z\<close>. \<open>heightmap.heights[z][startX]\<close> raises a \<open>TypeError\<close> when row \<open>z\<close>
  does not exist.
\<close>

fun chunkRows :: "HeightMap \<Rightarrow> nat \<Rightarrow> nat \<Rightarrow> nat list \<Rightarrow> error + fill list" where
  "chunkRows hm startX endX [] = Inr []"
| "chunkRows hm startX endX (z # zs) =
     (if z < length (heights hm) then
        (case chunkRows hm startX endX zs of
           Inl e \<Rightarrow> Inl e
         | Inr rest \<Rightarrow>
             Inr (rowRuns (minY hm) (heights hm ! z) z endX (startX + 1) startX
                    (cellOf (heights hm ! z) startX) @ rest))
      else Inl TypeError)"

text \<open>
  \<open>startX\<close>, \<open>startZ\<close> and \<open>chunkSize\<close> are the non-negative integers that
  \<open>generateLoaderFunctions\<close> passes. The loops count up from them, so an end below zero
  behaves as zero.
\<close>

definition generateChunkCommands :: "HeightMap \<Rightarrow> nat \<Rightarrow> nat \<Rightarrow> nat \<Rightarrow> error + fill list" where
  "generateChunkCommands hm startX startZ chunkSize =
     (let endX = nat (min (int (startX + chunkSize)) (hm_width hm));
          endZ = nat (min (int (startZ + chunkSize)) (hm_length hm))
      in chunkRows hm startX endX [startZ..<endZ])"

subsection \<open>What the emitted fills build\<close>

text \<open>
  A position is an offset from where the script runs. A fill names two opposite corners of
  a box, in either order, and sets every block of the box; a fill with a coordinate that is
  not a finite number sets nothing. \<open>expand\<close> lists the single-block assignments of a fill,
  \<open>assign\<close> carries one out and \<open>world\<close> carries out those of a list of fills in order.
\<close>

type_synonym pos = "nat \<times> int \<times> nat"

definition expand :: "fill \<Rightarrow> (pos \<times> string) list" where
  "expand f =
     (case (fy1 f, fy2 f) of
        (Fin a, Fin b) \<Rightarrow>
          concat (map (\<lambda>x. concat (map (\<lambda>y. map (\<lambda>z. ((x, y, z), fblock f))
                      [min (fz1 f) (fz2 f)..<Suc (max (fz1 f) (fz2 f))])
                    [\<lceil>min a b\<rceil>..\<lfloor>max a b\<rfloor>]))
                  [min (fx1 f) (fx2 f)..<Suc (max (fx1 f) (fx2 f))])
      | _ \<Rightarrow> [])"

definition assign :: "pos \<times> string \<Rightarrow> (pos \<rightharpoonup> string) \<Rightarrow> (pos \<rightharpoonup> string)" where
  "assign a w = w(fst a \<mapsto> snd a)"

definition worldFrom :: "(pos \<rightharpoonup> string) \<Rightarrow> fill list \<Rightarrow> (pos \<rightharpoonup> string)" where
  "worldFrom w fs = fold assign (concat (map expand fs)) w"

definition world :: "fill list \<Rightarrow> (pos \<rightharpoonup> string)" where
  "world fs = worldFrom Map.empty fs"

text \<open>
  The height and material grid of a chunk, cell by cell: the column of a cell with surface
  level \<open>h\<close> has the surface block at \<open>h\<close>, dirt on the three levels below it and stone
  between \<open>minY - 4\<close> and \<open>h - 4\<close>.
\<close>

definition layerOf :: "rat \<Rightarrow> rat \<Rightarrow> int \<Rightarrow> string option" where
  "layerOf m h y =
     (if of_int y = h then Some ''grass_block''
      else if h - 3 \<le> of_int y \<and> of_int y \<le> h - 1 then Some ''dirt''
      else if min (m - 4) (h - 4) \<le> of_int y \<and> of_int y \<le> max (m - 4) (h - 4) then Some ''stone''
      else None)"

definition columnOf :: "jsnum \<Rightarrow> jsnum \<Rightarrow> int \<Rightarrow> string option" where
  "columnOf base level y =
     (case (base, level) of (Fin m, Fin h) \<Rightarrow> layerOf m h y | _ \<Rightarrow> None)"

definition chunkGrid :: "HeightMap \<Rightarrow> nat \<Rightarrow> nat \<Rightarrow> nat \<Rightarrow> (pos \<rightharpoonup> string)" where
  "chunkGrid hm startX startZ chunkSize =
     (\<lambda>(x, y, z).
        if startX \<le> x \<and> int x < min (int (startX + chunkSize)) (hm_width hm) \<and>
           startZ \<le> z \<and> int z < min (int (startZ + chunkSize)) (hm_length hm)
        then columnOf (minY hm) (heights hm ! z ! x) y
        else None)"

fun isFin :: "jsnum \<Rightarrow> bool" where
  "isFin (Fin a) = True"
| "isFin a = False"

text \<open>A heightmap whose arrays have the sizes its fields say and whose levels are finite.\<close>

definition wellFormed :: "HeightMap \<Rightarrow> bool" where
  "wellFormed hm =
     (int (length (heights hm)) = hm_length hm \<and>
      (\<forall>row \<in> set (heights hm). int (length row) = hm_width hm \<and> (\<forall>v \<in> set row. isFin v)) \<and>
      isFin (minY hm))"

text \<open>
  The maximal runs of equal neighbours in a list of levels whose first element is column
  \<open>s\<close>: each with its first column, its last column and its level.
\<close>

function runsOf :: "nat \<Rightarrow> jsnum list \<Rightarrow> (nat \<times> nat \<times> jsnum) list" where
  "runsOf s [] = []"
| "runsOf s (h # t) =
     (s, s + length (takeWhile (\<lambda>c. c = h) t), h)
     # runsOf (Suc (s + length (takeWhile (\<lambda>c. c = h) t))) (dropWhile (\<lambda>c. c = h) t)"
  by pat_completeness auto
termination
  by (relation "measure (\<lambda>(s, xs). length xs)") (auto simp add: length_dropWhile_le le_imp_less_Suc)

text \<open>
  The scan of the inner loop told on the cells still to come: the open run started at
  column \<open>s\<close>, has \<open>n\<close> cells so far and level \<open>h\<close>.
\<close>

fun scanRow :: "jsnum \<Rightarrow> nat \<Rightarrow> nat \<Rightarrow> nat \<Rightarrow> jsnum \<Rightarrow> jsnum list \<Rightarrow> fill list" where
  "scanRow m z s n h [] = closeRun m z s (s + n - 1) (Some h)"
| "scanRow m z s n h (c # cs) =
     (if c \<noteq> h then closeRun m z s (s + n - 1) (Some h) @ scanRow m z (s + n) 1 c cs
      else scanRow m z s (Suc n) h cs)"

text \<open>Two small heightmaps to run the emitter on.\<close>

definition singleCellMap :: HeightMap where
  "singleCellMap = \<lparr>hm_width = 1, hm_length = 1, heights = [[Fin 70]], minY = Fin 64, maxY = Fin 70\<rparr>"

definition stepMap :: HeightMap where
  "stepMap = \<lparr>hm_width = 3, hm_length = 2,
               heights = [[Fin 64, Fin 64, Fin 65], [Fin 66, Fin 64, Fin 64]],
               minY = Fin 64, maxY = Fin 66\<rparr>"

section \<open>The incremental loader script and the host that runs it\<close>

text \<open>
  \<open>generateLoaderFunctions\<close> writes \<open>load_terrain_row.mcfunction\<close>, one command per line.
  The lines are kept structured here; \<open>render_cmd\<close> gives the text the source writes.
  All score commands of the script address the score \<open>terrain_row\<close> of objective \<open>loader\<close>.
\<close>

datatype fname = Row nat | Chunk nat nat

datatype action =
    RunFunction fname
  | Say string
  | ScoreAdd int
  | ScoreSet int

datatype cmd =
    Comment string
  | Blank
  | Do action
  | IfMatches int action
  | IfAtLeast int action

definition render_fname :: "fname \<Rightarrow> string" where
  "render_fname f = (case f of
      Row i \<Rightarrow> ''terrain/row_'' @ show_nat i
    | Chunk cx cz \<Rightarrow> ''terrain/chunk_'' @ show_nat cx @ ''_'' @ show_nat cz)"

definition show_int :: "int \<Rightarrow> string" where
  "show_int i = (if i < 0 then ''-'' @ show_nat (nat (- i)) else show_nat (nat i))"

definition render_action :: "action \<Rightarrow> string" where
  "render_action a = (case a of
      RunFunction f \<Rightarrow> ''function '' @ render_fname f
    | Say m \<Rightarrow> ''say '' @ m
    | ScoreAdd k \<Rightarrow> ''scoreboard players add terrain_row loader '' @ show_int k
    | ScoreSet k \<Rightarrow> ''scoreboard players set terrain_row loader '' @ show_int k)"

definition render_cmd :: "cmd \<Rightarrow> string" where
  "render_cmd c = (case c of
      Comment s \<Rightarrow> ''# '' @ s
    | Blank \<Rightarrow> ''''
    | Do a \<Rightarrow> render_action a
    | IfMatches i a \<Rightarrow>
        ''execute if score terrain_row loader matches '' @ show_int i @ '' run '' @ render_action a
    | IfAtLeast n a \<Rightarrow>
        ''execute if score terrain_row loader matches '' @ show_int n @ ''.. run '' @ render_action a)"

text \<open>The array \<open>rowLoaderCommands\<close> of \<open>generateLoaderFunctions\<close>, for \<open>chunksZ\<close> rows.\<close>

definition rowLoaderCommands :: "nat \<Rightarrow> cmd list" where
  "rowLoaderCommands chunksZ =
     [Comment ''Progressive row loader - run multiple times'',
      Comment ''Each run loads one row of the terrain'',
      Blank]
     @ map (\<lambda>i. IfMatches (int i) (RunFunction (Row i))) [0..<chunksZ]
     @ [Blank,
        Do (ScoreAdd 1),
        IfAtLeast (int chunksZ) (Say ''Terrain complete!''),
        IfAtLeast (int chunksZ) (ScoreSet 0)]"

text \<open>
  The host: it holds the counter between invocations and runs a script one command after
  the other. What it did is recorded in a trace. A row script only places blocks, so running
  it leaves the counter alone.
\<close>

datatype event = Ran fname | Said string

record host =
  counter :: int
  trace :: "event list"

definition exec_action :: "action \<Rightarrow> host \<Rightarrow> host" where
  "exec_action a h = (case a of
      RunFunction f \<Rightarrow> h\<lparr>trace := trace h @ [Ran f]\<rparr>
    | Say m \<Rightarrow> h\<lparr>trace := trace h @ [Said m]\<rparr>
    | ScoreAdd k \<Rightarrow> h\<lparr>counter := counter h + k\<rparr>
    | ScoreSet k \<Rightarrow> h\<lparr>counter := k\<rparr>)"

definition exec_cmd :: "cmd \<Rightarrow> host \<Rightarrow> host" where
  "exec_cmd c h = (case c of
      Comment s \<Rightarrow> h
    | Blank \<Rightarrow> h
    | Do a \<Rightarrow> exec_action a h
    | IfMatches i a \<Rightarrow> (if counter h = i then exec_action a h else h)
    | IfAtLeast n a \<Rightarrow> (if n \<le> counter h then exec_action a h else h))"

definition run_script :: "cmd list \<Rightarrow> host \<Rightarrow> host" where
  "run_script cs h = fold exec_cmd cs h"

text \<open>One invocation of \<open>load_terrain_row\<close>.\<close>

definition load_terrain_row :: "nat \<Rightarrow> host \<Rightarrow> host" where
  "load_terrain_row chunksZ = run_script (rowLoaderCommands chunksZ)"

section \<open>The incremental protocol\<close>

lemma exec_cmd_simps:
  "exec_cmd (Comment s) h = h"
  "exec_cmd Blank h = h"
  "exec_cmd (Do a) h = exec_action a h"
  "exec_cmd (IfMatches i a) h = (if counter h = i then exec_action a h else h)"
  "exec_cmd (IfAtLeast m a) h = (if m \<le> counter h then exec_action a h else h)"
  by (simp_all add: exec_cmd_def)

lemma exec_action_simps:
  "exec_action (RunFunction f) h = h\<lparr>trace := trace h @ [Ran f]\<rparr>"
  "exec_action (Say m) h = h\<lparr>trace := trace h @ [Said m]\<rparr>"
  "exec_action (ScoreAdd k) h = h\<lparr>counter := counter h + k\<rparr>"
  "exec_action (ScoreSet k) h = h\<lparr>counter := k\<rparr>"
  by (simp_all add: exec_action_def)

lemma dispatch_table:
  "fold exec_cmd (map (\<lambda>i. IfMatches (int i) (RunFunction (Row i))) [0..<n]) h =
     (if 0 \<le> counter h \<and> counter h < int n
      then h\<lparr>trace := trace h @ [Ran (Row (nat (counter h)))]\<rparr> else h)"
proof (induction n)
  case 0
  then show ?case by simp
next
  case (Suc n)
  show ?case
  proof (cases "counter h = int n")
    case True
    then show ?thesis
      by (simp add: Suc exec_cmd_simps exec_action_simps)
  next
    case False
    then show ?thesis
      by (auto simp add: Suc exec_cmd_simps exec_action_simps)
  qed
qed

lemma load_terrain_row_step:
  assumes "k < n"
  shows "load_terrain_row n \<lparr>counter = int k, trace = t\<rparr> =
           (if Suc k = n
            then \<lparr>counter = 0, trace = t @ [Ran (Row k), Said ''Terrain complete!'']\<rparr>
            else \<lparr>counter = int (Suc k), trace = t @ [Ran (Row k)]\<rparr>)"
  using assms
  by (auto simp add: load_terrain_row_def run_script_def rowLoaderCommands_def dispatch_table
      exec_cmd_simps exec_action_simps)

lemma load_terrain_row_prefix:
  "k < n \<Longrightarrow> (load_terrain_row n ^^ k) \<lparr>counter = 0, trace = []\<rparr> =
     \<lparr>counter = int k, trace = map (\<lambda>i. Ran (Row i)) [0..<k]\<rparr>"
proof (induction k)
  case 0
  then show ?case by simp
next
  case (Suc k)
  then have "k < n" and "Suc k \<noteq> n" by simp_all
  with Suc show ?case
    by (simp add: load_terrain_row_step)
qed

text \<open>For ten rows the script is the file \<open>load_terrain_row.mcfunction\<close> of the pack.\<close>

lemma load_terrain_row_file:
  "map render_cmd (rowLoaderCommands 10) =
    [''# Progressive row loader - run multiple times'',
     ''# Each run loads one row of the terrain'',
     '''',
     ''execute if score terrain_row loader matches 0 run function terrain/row_0'',
     ''execute if score terrain_row loader matches 1 run function terrain/row_1'',
     ''execute if score terrain_row loader matches 2 run function terrain/row_2'',
     ''execute if score terrain_row loader matches 3 run function terrain/row_3'',
     ''execute if score terrain_row loader matches 4 run function terrain/row_4'',
     ''execute if score terrain_row loader matches 5 run function terrain/row_5'',
     ''execute if score terrain_row loader matches 6 run function terrain/row_6'',
     ''execute if score terrain_row loader matches 7 run function terrain/row_7'',
     ''execute if score terrain_row loader matches 8 run function terrain/row_8'',
     ''execute if score terrain_row loader matches 9 run function terrain/row_9'',
     '''',
     ''scoreboard players add terrain_row loader 1'',
     ''execute if score terrain_row loader matches 10.. run say Terrain complete!'',
     ''execute if score terrain_row loader matches 10.. run scoreboard players set terrain_row loader 0'']"
  by code_simp

text \<open>
  C4. With \<open>rowCount \<ge> 1\<close> row scripts and the counter at 0, invoking the incremental loader
  \<open>rowCount\<close> times runs row 0, row 1, ... each exactly once and in this order, reports
  completion exactly once (as the last thing it does) and leaves the counter at 0.
\<close>

theorem incremental_protocol_completes:
  assumes "1 \<le> rowCount"
  shows "(load_terrain_row rowCount ^^ rowCount) \<lparr>counter = 0, trace = []\<rparr> =
           \<lparr>counter = 0,
            trace = map (\<lambda>i. Ran (Row i)) [0..<rowCount] @ [Said ''Terrain complete!'']\<rparr>"
proof -
  obtain k where k: "rowCount = Suc k"
    using assms by (cases rowCount) simp_all
  have "(load_terrain_row rowCount ^^ k) \<lparr>counter = 0, trace = []\<rparr> =
          \<lparr>counter = int k, trace = map (\<lambda>i. Ran (Row i)) [0..<k]\<rparr>"
    by (rule load_terrain_row_prefix) (simp add: k)
  then show ?thesis
    by (simp add: k load_terrain_row_step)
qed

theorem incremental_protocol_completes_witness:
  "(1::nat) \<le> 3 \<and>
   (load_terrain_row 3 ^^ 3) \<lparr>counter = 0, trace = []\<rparr> =
     \<lparr>counter = 0,
      trace = map (\<lambda>i. Ran (Row i)) [0..<3] @ [Said ''Terrain complete!'']\<rparr>"
  using incremental_protocol_completes [of 3] by simp

section \<open>Tile names\<close>

lemma show_nat_digit: "n < 10 \<Longrightarrow> show_nat n = [digit_char n]"
  by (simp add: show_nat.simps)

lemma show_nat_step: "10 \<le> n \<Longrightarrow> show_nat n = show_nat (n div 10) @ [digit_char (n mod 10)]"
  by (subst show_nat.simps) simp

lemma getTileName_nonneg:
  assumes "0 \<le> lat" "0 \<le> lon"
  shows "getTileName lat lon = floorTileName lat lon"
proof -
  have "0 \<le> \<lfloor>lat\<rfloor>" "0 \<le> \<lfloor>lon\<rfloor>" using assms by simp_all
  then show ?thesis
    using assms by (simp add: getTileName_def floorTileName_def Let_def)
qed

text \<open>
  C5. The tile name is not the encoding of the floors for negative fractional coordinates:
  \<open>getTileName\<close> takes the floor of the absolute value, so latitude \<open>-47.3\<close> is named
  \<open>S47\<close> where its floor \<open>-48\<close> is encoded \<open>S48\<close> (the tile whose south-west corner it is, and
  the one \<open>getElevation\<close> computes its offsets against).
\<close>

theorem getTileName_negative_fraction:
  "getTileName (- 473 / 10) (289 / 10) = ''S47E028'' \<and>
   floorTileName (- 473 / 10) (289 / 10) = ''S48E028''"
  by code_simp

section \<open>Runs and fills\<close>

lemma strictNeq_fin: "isFin a \<Longrightarrow> isFin b \<Longrightarrow> strictNeq (Some a) (Some b) = (a \<noteq> b)"
  by (cases a; cases b) (simp_all add: strictNeq_def)

lemma rowRuns_past: "endX < x \<Longrightarrow> rowRuns m row z endX x rs rh = []"
  by (subst rowRuns.simps) simp

lemma rowRuns_last:
  "rowRuns m row z endX endX rs rh = closeRun m z rs (endX - 1) rh"
  by (subst rowRuns.simps) (simp add: rowRuns_past)

lemma rowRuns_inner:
  assumes "x < endX" "endX \<le> length row"
  shows "rowRuns m row z endX x rs rh =
          (if strictNeq (Some (row ! x)) rh
           then closeRun m z rs (x - 1) rh @ rowRuns m row z endX (Suc x) x (Some (row ! x))
           else rowRuns m row z endX (Suc x) rs rh)"
  using assms by (subst rowRuns.simps) (simp add: cellOf_def)

lemma rowRuns_scan:
  assumes "rs < x" "x \<le> endX" "endX \<le> length row" "\<forall>v \<in> set row. isFin v" "isFin h"
  shows "rowRuns m row z endX x rs (Some h) =
           scanRow m z rs (x - rs) h (take (endX - x) (drop x row))"
  using assms
proof (induction "endX - x" arbitrary: x rs h)
  case 0
  then have "x = endX" and "rs + (endX - rs) = endX" by simp_all
  then show ?case by (simp add: rowRuns_last)
next
  case (Suc k)
  then have lt: "x < endX" and xl: "x < length row" by simp_all
  have seg: "take (endX - x) (drop x row) = row ! x # take (endX - Suc x) (drop (Suc x) row)"
    using lt xl by (metis Cons_nth_drop_Suc Suc_diff_Suc take_Suc_Cons)
  have finx: "isFin (row ! x)" using Suc.prems(4) xl by simp
  have k: "k = endX - Suc x" using Suc.hyps(2) by simp
  show ?case
  proof (cases "row ! x = h")
    case True
    have "rowRuns m row z endX (Suc x) rs (Some h) =
            scanRow m z rs (Suc x - rs) h (take (endX - Suc x) (drop (Suc x) row))"
      using Suc.hyps(1)[OF k] Suc.prems lt by simp
    moreover have "Suc x - rs = Suc (x - rs)" using Suc.prems(1) by simp
    ultimately show ?thesis
      using True lt Suc.prems by (simp add: rowRuns_inner seg strictNeq_fin)
  next
    case False
    have "rowRuns m row z endX (Suc x) x (Some (row ! x)) =
            scanRow m z x (Suc x - x) (row ! x) (take (endX - Suc x) (drop (Suc x) row))"
      using Suc.hyps(1)[OF k, of x "row ! x"] Suc.prems lt finx by simp
    moreover have "rs + (x - rs) = x" using Suc.prems(1) by simp
    ultimately show ?thesis
      using False lt Suc.prems finx by (simp add: rowRuns_inner seg strictNeq_fin)
  qed
qed

lemma runsOf_replicate_app:
  assumes "rest = [] \<or> hd rest \<noteq> h"
  shows "runsOf s (replicate (Suc k) h @ rest) = (s, s + k, h) # runsOf (Suc (s + k)) rest"
proof -
  have "takeWhile (\<lambda>c. c = h) (replicate k h @ rest) =
          replicate k h @ takeWhile (\<lambda>c. c = h) rest"
    by (rule takeWhile_append2) simp
  moreover have "takeWhile (\<lambda>c. c = h) rest = []"
    using assms by (cases rest) simp_all
  ultimately have tw: "takeWhile (\<lambda>c. c = h) (replicate k h @ rest) = replicate k h"
    by simp
  have "dropWhile (\<lambda>c. c = h) (replicate k h @ rest) = dropWhile (\<lambda>c. c = h) rest"
    by (rule dropWhile_append2) simp
  moreover have "dropWhile (\<lambda>c. c = h) rest = rest"
    using assms by (cases rest) simp_all
  ultimately have dw: "dropWhile (\<lambda>c. c = h) (replicate k h @ rest) = rest"
    by simp
  have "runsOf s (replicate (Suc k) h @ rest) = runsOf s (h # (replicate k h @ rest))"
    by simp
  also have "\<dots> = (s, s + k, h) # runsOf (Suc (s + k)) rest"
    by (simp only: runsOf.simps tw dw length_replicate)
  finally show ?thesis .
qed

lemma scanRow_runs:
  "scanRow m z s (Suc k) h rest =
     concat (map (\<lambda>(a, b, l). closeRun m z a b (Some l)) (runsOf s (replicate (Suc k) h @ rest)))"
proof (induction rest arbitrary: s k h)
  case Nil
  show ?case using runsOf_replicate_app[of "[]" h s k] by (simp del: replicate_Suc)
next
  case (Cons c cs)
  show ?case
  proof (cases "c = h")
    case True
    have e: "replicate (Suc k) h @ h # cs = replicate (Suc (Suc k)) h @ cs"
      by (simp add: replicate_app_Cons_same)
    have "scanRow m z s (Suc k) h (h # cs) = scanRow m z s (Suc (Suc k)) h cs"
      by simp
    then show ?thesis
      unfolding True e by (simp only: Cons.IH)
  next
    case False
    have "runsOf s (replicate (Suc k) h @ c # cs) = (s, s + k, h) # runsOf (Suc (s + k)) (c # cs)"
      using False by (intro runsOf_replicate_app) simp
    moreover have "scanRow m z s (Suc k) h (c # cs) =
        closeRun m z s (s + k) (Some h) @ scanRow m z (Suc (s + k)) (Suc 0) c cs"
      using False by simp
    moreover have "replicate (Suc 0) c @ cs = c # cs"
      by simp
    ultimately show ?thesis
      using Cons.IH[of "Suc (s + k)" 0 c] by (simp del: replicate_Suc runsOf.simps)
  qed
qed


lemma rowRuns_row:
  assumes "endX \<le> length row" "\<forall>v \<in> set row. isFin v"
  shows "rowRuns m row z endX (Suc startX) startX (cellOf row startX) =
           concat (map (\<lambda>(a, b, l). closeRun m z a b (Some l))
             (runsOf startX (take (endX - startX) (drop startX row))))"
proof (cases "startX < endX")
  case True
  then have xl: "startX < length row" using assms(1) by simp
  have seg: "take (endX - startX) (drop startX row) =
               row ! startX # take (endX - Suc startX) (drop (Suc startX) row)"
    using True xl by (metis Cons_nth_drop_Suc Suc_diff_Suc take_Suc_Cons)
  have "rowRuns m row z endX (Suc startX) startX (Some (row ! startX)) =
          scanRow m z startX (Suc startX - startX) (row ! startX)
            (take (endX - Suc startX) (drop (Suc startX) row))"
    using True assms xl by (intro rowRuns_scan) simp_all
  also have "\<dots> = concat (map (\<lambda>(a, b, l). closeRun m z a b (Some l))
      (runsOf startX (replicate (Suc 0) (row ! startX) @ take (endX - Suc startX) (drop (Suc startX) row))))"
    using scanRow_runs[of m z startX 0] by simp
  finally show ?thesis
    using xl by (simp add: seg cellOf_def)
next
  case False
  then show ?thesis by (simp add: rowRuns_past)
qed

lemma chunkRows_rows:
  assumes "\<forall>z \<in> set zs. z < length (heights hm)"
  shows "chunkRows hm startX endX zs =
           Inr (concat (map (\<lambda>z. rowRuns (minY hm) (heights hm ! z) z endX (Suc startX) startX
                                   (cellOf (heights hm ! z) startX)) zs))"
  using assms by (induction zs) simp_all

lemma wellFormed_rows:
  assumes "wellFormed hm" "int z < min (int b) (hm_length hm)"
  shows "z < length (heights hm)"
    and "nat (min (int a) (hm_width hm)) \<le> length (heights hm ! z)"
    and "\<forall>v \<in> set (heights hm ! z). isFin v"
proof -
  show z: "z < length (heights hm)"
    using assms by (simp add: wellFormed_def)
  then have "heights hm ! z \<in> set (heights hm)" by simp
  then have "int (length (heights hm ! z)) = hm_width hm \<and> (\<forall>v \<in> set (heights hm ! z). isFin v)"
    using assms(1) by (simp add: wellFormed_def)
  then show "nat (min (int a) (hm_width hm)) \<le> length (heights hm ! z)"
    and "\<forall>v \<in> set (heights hm ! z). isFin v"
    by auto
qed

text \<open>
  C8 (as amended). In every row of a chunk of a well-formed heightmap the emitter closes each
  maximal run of equal levels, in column order, with exactly three fills over the columns
  of the run: stone from \<open>minY - 4\<close> (four levels below the lowest level of the whole
  heightmap) to four levels below the surface of the run, dirt on the three levels below
  the surface, and one layer of \<open>grass_block\<close> at the surface, whatever the elevation.
\<close>

theorem runs_closed_by_three_fills:
  assumes "wellFormed hm"
  shows "generateChunkCommands hm startX startZ chunkSize =
    Inr (concat (map (\<lambda>z.
      concat (map (\<lambda>(runStart, runEnd, h).
          [Fill runStart (jsub (minY hm) (Fin 4)) z runEnd (jsub h (Fin 4)) z ''stone'',
           Fill runStart (jsub h (Fin 3)) z runEnd (jsub h (Fin 1)) z ''dirt'',
           Fill runStart h z runEnd h z ''grass_block''])
        (runsOf startX
          (take (nat (min (int (startX + chunkSize)) (hm_width hm)) - startX)
            (drop startX (heights hm ! z))))))
      [startZ..<nat (min (int (startZ + chunkSize)) (hm_length hm))]))"
proof -
  let ?endX = "nat (min (int (startX + chunkSize)) (hm_width hm))"
  let ?endZ = "nat (min (int (startZ + chunkSize)) (hm_length hm))"
  have rows: "\<forall>z \<in> set [startZ..<?endZ]. z < length (heights hm)"
  proof
    fix z assume "z \<in> set [startZ..<?endZ]"
    then have "int z < min (int (startZ + chunkSize)) (hm_length hm)"
      by (simp add: zless_nat_eq_int_zless)
    then show "z < length (heights hm)" by (rule wellFormed_rows(1)[OF assms])
  qed
  have row: "rowRuns (minY hm) (heights hm ! z) z ?endX (Suc startX) startX
               (cellOf (heights hm ! z) startX) =
             concat (map (\<lambda>(a, b, l). closeRun (minY hm) z a b (Some l))
               (runsOf startX (take (?endX - startX) (drop startX (heights hm ! z)))))"
    if "z \<in> set [startZ..<?endZ]" for z
  proof -
    have "int z < min (int (startZ + chunkSize)) (hm_length hm)"
      using that by (simp add: zless_nat_eq_int_zless)
    then show ?thesis
      by (intro rowRuns_row wellFormed_rows(2,3)[OF assms])
  qed
  have "generateChunkCommands hm startX startZ chunkSize =
          Inr (concat (map (\<lambda>z. rowRuns (minY hm) (heights hm ! z) z ?endX (Suc startX) startX
                                   (cellOf (heights hm ! z) startX)) [startZ..<?endZ]))"
    using chunkRows_rows[OF rows] by (simp add: generateChunkCommands_def)
  also have "map (\<lambda>z. rowRuns (minY hm) (heights hm ! z) z ?endX (Suc startX) startX
                                   (cellOf (heights hm ! z) startX)) [startZ..<?endZ] =
     map (\<lambda>z. concat (map (\<lambda>(a, b, l). closeRun (minY hm) z a b (Some l))
               (runsOf startX (take (?endX - startX) (drop startX (heights hm ! z))))))
       [startZ..<?endZ]"
    using row by (intro map_cong refl) 
  finally show ?thesis
    by (simp add: closeRun_def numOf_def)
qed

theorem runs_closed_by_three_fills_witness:
  "wellFormed stepMap \<and>
   generateChunkCommands stepMap 0 0 16 =
    Inr (concat (map (\<lambda>z.
      concat (map (\<lambda>(runStart, runEnd, h).
          [Fill runStart (jsub (minY stepMap) (Fin 4)) z runEnd (jsub h (Fin 4)) z ''stone'',
           Fill runStart (jsub h (Fin 3)) z runEnd (jsub h (Fin 1)) z ''dirt'',
           Fill runStart h z runEnd h z ''grass_block''])
        (runsOf 0
          (take (nat (min (int (0 + 16)) (hm_width stepMap)) - 0)
            (drop 0 (heights stepMap ! z))))))
      [0..<nat (min (int (0 + 16)) (hm_length stepMap))]))"
proof -
  have wf: "wellFormed stepMap"
    by (simp add: wellFormed_def stepMap_def)
  show ?thesis
    by (intro conjI wf runs_closed_by_three_fills[OF wf])
qed

text \<open>
  The stone fill of a run does not start four levels below the surface of the run: for one
  cell of level 70 over a lowest level of 64 it spans 60 to 66.
\<close>

theorem stone_base_starts_below_minY:
  "generateChunkCommands singleCellMap 0 0 16 =
     Inr [Fill 0 (Fin 60) 0 0 (Fin 66) 0 ''stone'',
          Fill 0 (Fin 67) 0 0 (Fin 69) 0 ''dirt'',
          Fill 0 (Fin 70) 0 0 (Fin 70) 0 ''grass_block''] \<and>
   Fin 60 \<noteq> jsub (Fin 70) (Fin 4)"
  by (simp add: generateChunkCommands_def singleCellMap_def rowRuns_last rowRuns_past closeRun_def
      jsub_def numOf_def cellOf_def)

section \<open>Expanding the fills of a chunk\<close>

lemma fold_assign_const:
  "\<forall>a \<in> set xs. snd a = b \<Longrightarrow>
     fold assign xs w q = (if q \<in> fst ` set xs then Some b else w q)"
  by (induction xs arbitrary: w) (auto simp add: assign_def)

lemma expand_snd: "\<forall>a \<in> set (expand f). snd a = fblock f"
  by (cases f) (auto simp add: expand_def split: jsnum.splits)

lemma expand_fst:
  "(x, y, z) \<in> fst ` set (expand (Fill a1 (Fin b1) c1 a2 (Fin b2) c2 blk)) \<longleftrightarrow>
     min a1 a2 \<le> x \<and> x \<le> max a1 a2 \<and>
     min b1 b2 \<le> of_int y \<and> of_int y \<le> max b1 b2 \<and>
     min c1 c2 \<le> z \<and> z \<le> max c1 c2"
  by (auto simp add: expand_def image_iff ceiling_le_iff le_floor_iff)

lemma place_fill:
  "fold assign (expand (Fill a1 (Fin b1) c1 a2 (Fin b2) c2 blk)) w (x, y, z) =
     (if min a1 a2 \<le> x \<and> x \<le> max a1 a2 \<and>
         min b1 b2 \<le> of_int y \<and> of_int y \<le> max b1 b2 \<and>
         min c1 c2 \<le> z \<and> z \<le> max c1 c2
      then Some blk else w (x, y, z))"
  using fold_assign_const[OF expand_snd, of "Fill a1 (Fin b1) c1 a2 (Fin b2) c2 blk" w "(x, y, z)"]
  by (simp only: expand_fst fill.sel)

lemma worldFrom_Nil: "worldFrom w [] = w"
  by (simp add: worldFrom_def)

lemma worldFrom_Cons: "worldFrom w (f # fs) = worldFrom (fold assign (expand f) w) fs"
  by (simp add: worldFrom_def)

lemma worldFrom_append: "worldFrom w (fs @ gs) = worldFrom (worldFrom w fs) gs"
  by (simp add: worldFrom_def)

lemma closeRun_world:
  assumes "s \<le> e"
  shows "worldFrom w (closeRun (Fin m) z s e (Some (Fin h))) (x, y, z') =
     (if z' = z \<and> s \<le> x \<and> x \<le> e
      then (case layerOf m h y of Some b \<Rightarrow> Some b | None \<Rightarrow> w (x, y, z'))
      else w (x, y, z'))"
  using assms
  by (simp add: closeRun_def worldFrom_Cons worldFrom_Nil place_fill jsub_def numOf_def layerOf_def)


lemma columnOf_Fin: "columnOf (Fin m) (Fin h) y = layerOf m h y"
  by (simp add: columnOf_def)

lemma isFin_iff: "isFin v \<longleftrightarrow> (\<exists>a. v = Fin a)"
  by (cases v) simp_all

lemma scanRow_world:
  assumes "\<forall>v \<in> set rest. isFin v"
  shows "worldFrom w (scanRow (Fin m) z s (Suc k) (Fin h) rest) (x, y, z') =
     (if z' = z \<and> s \<le> x \<and> x < s + Suc k + length rest
      then (case columnOf (Fin m) ((replicate (Suc k) (Fin h) @ rest) ! (x - s)) y of
              Some b \<Rightarrow> Some b | None \<Rightarrow> w (x, y, z'))
      else w (x, y, z'))"
  using assms
proof (induction rest arbitrary: w s k h)
  case Nil
  have nth: "(replicate (Suc k) (Fin h)) ! (x - s) = Fin h" if "s \<le> x" "x \<le> s + k"
    using that by (intro nth_replicate) simp
  show ?case
    by (auto simp add: closeRun_world columnOf_Fin nth simp del: replicate_Suc)
next
  case (Cons c cs)
  then obtain c' where c: "c = Fin c'" by (auto simp add: isFin_iff)
  have fin: "\<forall>v \<in> set cs. isFin v" using Cons.prems by simp
  show ?case
  proof (cases "c' = h")
    case True
    have e: "replicate (Suc k) (Fin h) @ Fin h # cs = replicate (Suc (Suc k)) (Fin h) @ cs"
      by (simp add: replicate_app_Cons_same)
    have "scanRow (Fin m) z s (Suc k) (Fin h) (Fin h # cs) =
            scanRow (Fin m) z s (Suc (Suc k)) (Fin h) cs"
      by simp
    then show ?thesis
      unfolding c True e by (simp only: Cons.IH[OF fin]) simp
  next
    case False
    have ne: "Fin c' \<noteq> Fin h" using False by simp
    have left: "(replicate (Suc k) (Fin h) @ Fin c' # cs) ! (x - s) = Fin h"
      if "s \<le> x" "x \<le> s + k"
    proof -
      have "x - s < Suc k" using that by simp
      then show ?thesis by (simp add: nth_append del: replicate_Suc)
    qed
    have right: "(replicate (Suc k) (Fin h) @ Fin c' # cs) ! (x - s) =
                 (replicate (Suc 0) (Fin c') @ cs) ! (x - Suc (s + k))" if "s + Suc k \<le> x"
    proof -
      have "x - s - Suc k = x - Suc (s + k)" by simp
      moreover have "\<not> x - s < Suc k" using that by simp
      ultimately show ?thesis
        by (simp add: nth_append del: replicate_Suc)
    qed
    show ?thesis
      unfolding c
    proof (cases "x < s + Suc k")
      case True
      then show "worldFrom w (scanRow (Fin m) z s (Suc k) (Fin h) (Fin c' # cs)) (x, y, z') =
        (if z' = z \<and> s \<le> x \<and> x < s + Suc k + length (Fin c' # cs)
         then case columnOf (Fin m) ((replicate (Suc k) (Fin h) @ Fin c' # cs) ! (x - s)) y of
              None \<Rightarrow> w (x, y, z') | Some b \<Rightarrow> Some b
         else w (x, y, z'))"
        using ne
        by (auto simp add: worldFrom_append Cons.IH[OF fin] closeRun_world columnOf_Fin left
            simp del: replicate_Suc)
    next
      case False
      then have "s + Suc k \<le> x" by simp
      from right[OF this] this
      show "worldFrom w (scanRow (Fin m) z s (Suc k) (Fin h) (Fin c' # cs)) (x, y, z') =
        (if z' = z \<and> s \<le> x \<and> x < s + Suc k + length (Fin c' # cs)
         then case columnOf (Fin m) ((replicate (Suc k) (Fin h) @ Fin c' # cs) ! (x - s)) y of
              None \<Rightarrow> w (x, y, z') | Some b \<Rightarrow> Some b
         else w (x, y, z'))"
        using ne
        by (auto simp add: worldFrom_append Cons.IH[OF fin] closeRun_world
            simp del: replicate_Suc split: option.splits)
    qed
  qed
qed


lemma rowRuns_start:
  assumes "startX < endX" "endX \<le> length row" "\<forall>v \<in> set row. isFin v"
  shows "rowRuns m row z endX (Suc startX) startX (cellOf row startX) =
           scanRow m z startX (Suc 0) (row ! startX)
             (take (endX - Suc startX) (drop (Suc startX) row))"
proof -
  have "rowRuns m row z endX (Suc startX) startX (Some (row ! startX)) =
          scanRow m z startX (Suc startX - startX) (row ! startX)
            (take (endX - Suc startX) (drop (Suc startX) row))"
    using assms by (intro rowRuns_scan) simp_all
  then show ?thesis
    using assms by (simp add: cellOf_def)
qed

lemma segment_nth:
  assumes "startX \<le> x" "x < endX" "endX \<le> length row"
  shows "(row ! startX # take (endX - Suc startX) (drop (Suc startX) row)) ! (x - startX) = row ! x"
proof -
  have "row ! startX # take (endX - Suc startX) (drop (Suc startX) row) =
          take (endX - startX) (drop startX row)"
    using assms by (metis Cons_nth_drop_Suc Suc_diff_Suc le_less_trans less_le_trans take_Suc_Cons)
  then show ?thesis
    using assms by simp
qed

lemma rowRuns_world:
  assumes "endX \<le> length row" "\<forall>v \<in> set row. isFin v"
  shows "worldFrom w (rowRuns (Fin m) row z endX (Suc startX) startX (cellOf row startX)) (x, y, z') =
     (if z' = z \<and> startX \<le> x \<and> x < endX
      then (case columnOf (Fin m) (row ! x) y of Some b \<Rightarrow> Some b | None \<Rightarrow> w (x, y, z'))
      else w (x, y, z'))"
proof (cases "startX < endX")
  case True
  then have "row ! startX \<in> set row" using assms(1) by simp
  then obtain h where h: "row ! startX = Fin h"
    using assms(2) by (auto simp add: isFin_iff)
  have rest: "\<forall>v \<in> set (take (endX - Suc startX) (drop (Suc startX) row)). isFin v"
    using assms(2) by (meson in_set_dropD in_set_takeD)
  have len: "startX + Suc 0 + length (take (endX - Suc startX) (drop (Suc startX) row)) = endX"
    using True assms(1) by simp
  have nth: "(replicate (Suc 0) (Fin h) @ take (endX - Suc startX) (drop (Suc startX) row)) ! (x - startX)
               = row ! x" if "startX \<le> x" "x < endX"
    using segment_nth[OF that assms(1)] h by simp
  show ?thesis
    unfolding rowRuns_start[OF True assms] h scanRow_world[OF rest] len
    using nth by (auto simp del: replicate_Suc)
next
  case False
  then show ?thesis by (auto simp add: rowRuns_past worldFrom_Nil)
qed

lemma chunk_world:
  assumes "\<forall>z \<in> set zs. endX \<le> length (heights hm ! z) \<and> (\<forall>v \<in> set (heights hm ! z). isFin v)"
    and "minY hm = Fin m"
  shows "worldFrom w (concat (map (\<lambda>z. rowRuns (minY hm) (heights hm ! z) z endX (Suc startX) startX
                                   (cellOf (heights hm ! z) startX)) zs)) (x, y, z') =
     (if z' \<in> set zs \<and> startX \<le> x \<and> x < endX
      then (case columnOf (minY hm) (heights hm ! z' ! x) y of
              Some b \<Rightarrow> Some b | None \<Rightarrow> w (x, y, z'))
      else w (x, y, z'))"
  using assms(1)
proof (induction zs arbitrary: w)
  case Nil
  then show ?case by (simp add: worldFrom_Nil)
next
  case (Cons z zs)
  then have row: "endX \<le> length (heights hm ! z)" "\<forall>v \<in> set (heights hm ! z). isFin v"
    and rest: "\<forall>z \<in> set zs. endX \<le> length (heights hm ! z) \<and> (\<forall>v \<in> set (heights hm ! z). isFin v)"
    by simp_all
  note row_world = rowRuns_world[OF row, where m = m, folded assms(2)]
  show ?case
    by (auto simp add: worldFrom_append Cons.IH[OF rest] row_world split: option.splits)
qed

lemma wellFormed_cell:
  assumes "wellFormed hm" "int z < hm_length hm" "int x < hm_width hm"
  shows "isFin (heights hm ! z ! x)"
proof -
  have z: "z < length (heights hm)" using assms(1,2) by (simp add: wellFormed_def)
  then have "heights hm ! z \<in> set (heights hm)" by simp
  then have "int (length (heights hm ! z)) = hm_width hm \<and> (\<forall>v \<in> set (heights hm ! z). isFin v)"
    using assms(1) by (simp add: wellFormed_def)
  moreover from this have "x < length (heights hm ! z)" using assms(3) by simp
  ultimately show ?thesis by simp
qed

lemma layerOf_surface: "layerOf m h y = Some ''grass_block'' \<longleftrightarrow> of_int y = h"
  by (simp add: layerOf_def)

lemma chunkGrid_surface:
  assumes "wellFormed hm"
  shows "chunkGrid hm startX startZ chunkSize (x, y, z) = Some ''grass_block'' \<longleftrightarrow>
           startX \<le> x \<and> int x < min (int (startX + chunkSize)) (hm_width hm) \<and>
           startZ \<le> z \<and> int z < min (int (startZ + chunkSize)) (hm_length hm) \<and>
           heights hm ! z ! x = Fin (of_int y)"
proof (cases "startX \<le> x \<and> int x < min (int (startX + chunkSize)) (hm_width hm) \<and>
           startZ \<le> z \<and> int z < min (int (startZ + chunkSize)) (hm_length hm)")
  case True
  then have "isFin (heights hm ! z ! x)"
    using wellFormed_cell[OF assms, of z x] by simp
  then obtain h where h: "heights hm ! z ! x = Fin h" by (auto simp add: isFin_iff)
  obtain m where m: "minY hm = Fin m"
    using assms by (auto simp add: wellFormed_def isFin_iff)
  show ?thesis
    using True by (auto simp add: chunkGrid_def h m columnOf_Fin layerOf_surface)
next
  case False
  then show ?thesis by (auto simp add: chunkGrid_def)
qed

text \<open>
  C3. Run-length compression is lossless: for every chunk of a well-formed heightmap the
  emitter returns its fills, and carrying out every fill block by block builds exactly the
  height and material grid of the chunk: over each cell of the chunk the column of that
  cell's level, and nothing anywhere else. So the surface block lies over a cell of the
  chunk at the level of that cell and nowhere else, which gives every height back.
\<close>

theorem fills_rebuild_chunk:
  assumes "wellFormed hm"
  shows "\<exists>fills. generateChunkCommands hm startX startZ chunkSize = Inr fills \<and>
           world fills = chunkGrid hm startX startZ chunkSize \<and>
           (\<forall>x y z. world fills (x, y, z) = Some ''grass_block'' \<longleftrightarrow>
              startX \<le> x \<and> int x < min (int (startX + chunkSize)) (hm_width hm) \<and>
              startZ \<le> z \<and> int z < min (int (startZ + chunkSize)) (hm_length hm) \<and>
              heights hm ! z ! x = Fin (of_int y))"
proof -
  let ?endX = "nat (min (int (startX + chunkSize)) (hm_width hm))"
  let ?endZ = "nat (min (int (startZ + chunkSize)) (hm_length hm))"
  let ?fills = "concat (map (\<lambda>z. rowRuns (minY hm) (heights hm ! z) z ?endX (Suc startX) startX
                                   (cellOf (heights hm ! z) startX)) [startZ..<?endZ])"
  have inz: "int z < min (int (startZ + chunkSize)) (hm_length hm)" if "z \<in> set [startZ..<?endZ]" for z
    using that by (simp add: zless_nat_eq_int_zless)
  have rows: "\<forall>z \<in> set [startZ..<?endZ]. z < length (heights hm)"
    using inz wellFormed_rows(1)[OF assms] by blast
  have cells: "\<forall>z \<in> set [startZ..<?endZ].
      ?endX \<le> length (heights hm ! z) \<and> (\<forall>v \<in> set (heights hm ! z). isFin v)"
    using inz wellFormed_rows(2,3)[OF assms] by blast
  obtain m where m: "minY hm = Fin m"
    using assms by (auto simp add: wellFormed_def isFin_iff)
  have gen: "generateChunkCommands hm startX startZ chunkSize = Inr ?fills"
    using chunkRows_rows[OF rows] by (simp add: generateChunkCommands_def)
  have "world ?fills p = chunkGrid hm startX startZ chunkSize p" for p
  proof (cases p)
    case (fields x y z)
    show ?thesis
      unfolding fields world_def chunk_world[OF cells m]
      by (auto simp add: chunkGrid_def zless_nat_eq_int_zless split: option.splits)
  qed
  then have grid: "world ?fills = chunkGrid hm startX startZ chunkSize"
    by (rule ext)
  have "\<forall>x y z. world ?fills (x, y, z) = Some ''grass_block'' \<longleftrightarrow>
              startX \<le> x \<and> int x < min (int (startX + chunkSize)) (hm_width hm) \<and>
              startZ \<le> z \<and> int z < min (int (startZ + chunkSize)) (hm_length hm) \<and>
              heights hm ! z ! x = Fin (of_int y)"
    unfolding grid using chunkGrid_surface[OF assms] by blast
  with gen grid show ?thesis by blast
qed

theorem fills_rebuild_chunk_witness:
  "wellFormed stepMap \<and>
   (\<exists>fills. generateChunkCommands stepMap 0 0 16 = Inr fills \<and>
      world fills = chunkGrid stepMap 0 0 16 \<and>
      (\<forall>x y z. world fills (x, y, z) = Some ''grass_block'' \<longleftrightarrow>
         0 \<le> x \<and> int x < min (int (0 + 16)) (hm_width stepMap) \<and>
         0 \<le> z \<and> int z < min (int (0 + 16)) (hm_length stepMap) \<and>
         heights stepMap ! z ! x = Fin (of_int y)))"
proof -
  have wf: "wellFormed stepMap"
    by (simp add: wellFormed_def stepMap_def)
  show ?thesis
    by (intro conjI wf fills_rebuild_chunk[OF wf])
qed

section \<open>Queries on a consistent parser\<close>

lemma sampleIndex_in_tile: "0 \<le> sampleIndex lat lon \<and> sampleIndex lat lon < 3601 * 3601"
proof -
  define a where "a = lat - of_int \<lfloor>lat\<rfloor>"
  define c where "c = lon - of_int \<lfloor>lon\<rfloor>"
  have a: "0 \<le> a" "a < 1" and c: "0 \<le> c" "c < 1"
    unfolding a_def c_def by linarith+
  have r0: "0 \<le> \<lfloor>(1 - a) * 3600\<rfloor>" using a by simp
  have "(1 - a) * 3600 \<le> 3600" using a by simp
  then have r1: "\<lfloor>(1 - a) * 3600\<rfloor> \<le> 3600" by (simp add: floor_le_iff)
  have c0: "0 \<le> \<lfloor>c * 3600\<rfloor>" using c by simp
  have "c * 3600 < 3600" using c by simp
  then have c1: "\<lfloor>c * 3600\<rfloor> < 3600" by (simp add: floor_less_iff)
  have "sampleIndex lat lon = \<lfloor>(1 - a) * 3600\<rfloor> * 3601 + \<lfloor>c * 3600\<rfloor>"
    by (simp add: sampleIndex_def a_def c_def Let_def)
  moreover have "(3601::int) * 3601 = 12967201" by simp
  ultimately show ?thesis using r0 r1 c0 c1 by linarith
qed

lemma consistent_new: "consistent fs newSRTMParser"
  by (simp add: consistent_def newSRTMParser_def)

lemma loadTile_consistent:
  assumes "consistent fs p"
  shows "fst (loadTile fs n p) = fileTile fs n"
    and "consistent fs (snd (loadTile fs n p))"
    and "warnings (snd (loadTile fs n p)) = warnings p"
  using assms
  by (auto simp add: loadTile_def fileTile_def consistent_def split: option.splits hgtfile.splits)

lemma getElevation_consistent:
  assumes "consistent fs p"
  shows "fst (getElevation fs lat lon p) = pointElevation fs lat lon"
    and "consistent fs (snd (getElevation fs lat lon p))"
    and "warnings (snd (getElevation fs lat lon p)) = warnings p"
proof -
  obtain r p' where l: "loadTile fs (getTileName lat lon) p = (r, p')"
    by (cases "loadTile fs (getTileName lat lon) p")
  from loadTile_consistent[OF assms, of "getTileName lat lon"] l
  have r: "r = fileTile fs (getTileName lat lon)" and c: "consistent fs p'"
    and w: "warnings p' = warnings p"
    by simp_all
  show "fst (getElevation fs lat lon p) = pointElevation fs lat lon"
    by (simp add: getElevation_def pointElevation_def l r [symmetric] Let_def split: sum.splits)
  show "consistent fs (snd (getElevation fs lat lon p))"
    using c by (simp add: getElevation_def l Let_def split: sum.splits)
  show "warnings (snd (getElevation fs lat lon p)) = warnings p"
    using w by (simp add: getElevation_def l Let_def split: sum.splits)
qed

lemma sampleCell_consistent:
  assumes "consistent fs (sampler s)"
  shows "consistent fs (sampler (sampleCell fs b w row col s))"
    and "warnings (sampler (sampleCell fs b w row col s)) = warnings (sampler s)"
    and "cells (sampleCell fs b w row col s) = (cells s)[row * nat w + col := cellWord fs b row col]"
proof -
  let ?lat = "north b - of_nat row * arcSecond" and ?lon = "west b + of_nat col * arcSecond"
  obtain r p' where g: "getElevation fs ?lat ?lon (sampler s) = (r, p')"
    by (cases "getElevation fs ?lat ?lon (sampler s)")
  from getElevation_consistent[OF assms, of ?lat ?lon] g
  have r: "r = pointElevation fs ?lat ?lon" and c: "consistent fs p'"
    and w: "warnings p' = warnings (sampler s)"
    by simp_all
  show "consistent fs (sampler (sampleCell fs b w row col s))"
    using c by (simp add: sampleCell_def g Let_def split: sum.splits)
  show "warnings (sampler (sampleCell fs b w row col s)) = warnings (sampler s)"
    using w by (simp add: sampleCell_def g Let_def split: sum.splits)
  show "cells (sampleCell fs b w row col s) = (cells s)[row * nat w + col := cellWord fs b row col]"
    by (simp add: sampleCell_def g Let_def cellWord_def r [symmetric] split: sum.splits)
qed

lemma sampleCell_failed:
  assumes "consistent fs (sampler s)"
    and "pointElevation fs (north b - of_nat row * arcSecond) (west b + of_nat col * arcSecond) = Inl e"
  shows "minElev (sampleCell fs b w row col s) = minElev s"
    and "maxElev (sampleCell fs b w row col s) = maxElev s"
proof -
  let ?lat = "north b - of_nat row * arcSecond" and ?lon = "west b + of_nat col * arcSecond"
  obtain r p' where g: "getElevation fs ?lat ?lon (sampler s) = (r, p')"
    by (cases "getElevation fs ?lat ?lon (sampler s)")
  from getElevation_consistent(1)[OF assms(1), of ?lat ?lon] g assms(2)
  have r: "r = Inl e" by simp
  show "minElev (sampleCell fs b w row col s) = minElev s"
    and "maxElev (sampleCell fs b w row col s) = maxElev s"
    by (simp_all add: sampleCell_def g r)
qed

lemma sampleCols:
  assumes "consistent fs (sampler s)"
  shows "consistent fs (sampler (fold (sampleCell fs b w row) cols s))"
    and "warnings (sampler (fold (sampleCell fs b w row) cols s)) = warnings (sampler s)"
    and "cells (fold (sampleCell fs b w row) cols s) =
           fold (\<lambda>col d. d[row * nat w + col := cellWord fs b row col]) cols (cells s)"
  using assms by (induction cols arbitrary: s) (simp_all add: sampleCell_consistent)

lemma sampleRows:
  assumes "consistent fs (sampler s)"
  shows "consistent fs (sampler (fold (\<lambda>row. fold (sampleCell fs b w row) cols) rows s))"
    and "warnings (sampler (fold (\<lambda>row. fold (sampleCell fs b w row) cols) rows s)) =
           warnings (sampler s)"
    and "cells (fold (\<lambda>row. fold (sampleCell fs b w row) cols) rows s) =
           fold (\<lambda>row. fold (\<lambda>col d. d[row * nat w + col := cellWord fs b row col]) cols) rows
             (cells s)"
  using assms by (induction rows arbitrary: s) (simp_all add: sampleCols)

lemma sampleCols_failed:
  assumes "consistent fs (sampler s)"
    and "\<forall>col \<in> set cols. isl (pointElevation fs (north b - of_nat row * arcSecond)
                                    (west b + of_nat col * arcSecond))"
  shows "minElev (fold (sampleCell fs b w row) cols s) = minElev s"
    and "maxElev (fold (sampleCell fs b w row) cols s) = maxElev s"
  using assms
proof (induction cols arbitrary: s)
  case Nil
  { case 1 show ?case by simp }
  { case 2 show ?case by simp }
next
  case (Cons c cols)
  { case 1
    then obtain e where "pointElevation fs (north b - of_nat row * arcSecond)
        (west b + of_nat c * arcSecond) = Inl e"
      by (auto simp add: isl_def)
    with 1 Cons.IH(1)[of "sampleCell fs b w row c s"] show ?case
      by (simp add: sampleCell_consistent(1) sampleCell_failed) }
  { case 2
    then obtain e where "pointElevation fs (north b - of_nat row * arcSecond)
        (west b + of_nat c * arcSecond) = Inl e"
      by (auto simp add: isl_def)
    with 2 Cons.IH(2)[of "sampleCell fs b w row c s"] show ?case
      by (simp add: sampleCell_consistent(1) sampleCell_failed) }
qed

lemma sampleRows_failed:
  assumes "consistent fs (sampler s)"
    and "\<forall>row \<in> set rows. \<forall>col \<in> set cols.
           isl (pointElevation fs (north b - of_nat row * arcSecond)
                                  (west b + of_nat col * arcSecond))"
  shows "minElev (fold (\<lambda>row. fold (sampleCell fs b w row) cols) rows s) = minElev s \<and>
         maxElev (fold (\<lambda>row. fold (sampleCell fs b w row) cols) rows s) = maxElev s"
  using assms
proof (induction rows arbitrary: s)
  case Nil
  show ?case by simp
next
  case (Cons r rows)
  have c: "consistent fs (sampler (fold (sampleCell fs b w r) cols s))"
    using Cons.prems(1) by (rule sampleCols(1))
  have f: "\<forall>col \<in> set cols. isl (pointElevation fs (north b - of_nat r * arcSecond)
                                    (west b + of_nat col * arcSecond))"
    using Cons.prems(2) by simp
  from Cons.IH[OF c] Cons.prems(2) sampleCols_failed[OF Cons.prems(1) f]
  show ?case by simp
qed

lemma fold_row_nth:
  "length (fold (\<lambda>col d. d[k + col := f col]) [0..<n] d) = length d"
  "i < length d \<Longrightarrow> (fold (\<lambda>col d. d[k + col := f col]) [0..<n] d) ! i =
     (if k \<le> i \<and> i < k + n then f (i - k) else d ! i)"
proof (induction n)
  case 0
  { case 1 show ?case by simp }
  { case 2 show ?case by auto }
next
  case (Suc n)
  { case 1 show ?case using Suc.IH(1) by simp }
  { case 2
    show ?case
    proof (cases "i = k + n")
      case True
      then show ?thesis
        using 2 Suc.IH(1) by simp
    next
      case False
      then have "(i < k + Suc n) = (i < k + n)" by auto
      then show ?thesis
        using False 2 Suc.IH(2) by simp
    qed }
qed

lemma fold_grid_nth:
  "length (fold (\<lambda>row. fold (\<lambda>col d. d[row * w + col := f row col]) [0..<w]) [0..<h] d) = length d"
  "i < length d \<Longrightarrow>
     (fold (\<lambda>row. fold (\<lambda>col d. d[row * w + col := f row col]) [0..<w]) [0..<h] d) ! i =
     (if i < h * w then f (i div w) (i mod w) else d ! i)"
proof (induction h)
  case 0
  { case 1 show ?case by simp }
  { case 2 show ?case by simp }
next
  case (Suc h)
  { case 1 show ?case using Suc.IH(1) by (simp add: fold_row_nth(1)) }
  { case 2
    have dm: "i div w = h \<and> i mod w = i - h * w" if "h * w \<le> i" "i < h * w + w"
    proof -
      have "i div w = h"
        using that by (intro div_nat_eqI) (simp_all add: mult.commute)
      then show ?thesis
        by (metis minus_div_mult_eq_mod)
    qed
    from 2 show ?case
      using Suc.IH dm by (auto simp add: fold_row_nth) }
qed

lemma preloadTile_consistent:
  assumes "consistent fs p"
  shows "consistent fs (preloadTile fs lat lon p)"
    and "set (warnings (preloadTile fs lat lon p)) =
           set (warnings p) \<union>
           (if isl (fileTile fs (getTileName (of_int lat) (of_int lon)))
            then {''Warning: Could not load tile '' @ getTileName (of_int lat) (of_int lon)}
            else {})"
proof -
  let ?n = "getTileName (of_int lat) (of_int lon)"
  obtain r p' where l: "loadTile fs ?n p = (r, p')"
    by (cases "loadTile fs ?n p")
  from loadTile_consistent[OF assms, of ?n] l
  have r: "fileTile fs ?n = r" and c: "consistent fs p'" and w: "warnings p' = warnings p"
    by simp_all
  show "consistent fs (preloadTile fs lat lon p)"
    using c by (cases r) (simp_all add: preloadTile_def l Let_def consistent_def)
  show "set (warnings (preloadTile fs lat lon p)) =
           set (warnings p) \<union>
           (if isl (fileTile fs ?n) then {''Warning: Could not load tile '' @ ?n} else {})"
    unfolding r by (cases r) (simp_all add: preloadTile_def l Let_def w)
qed

lemma preloadLons:
  assumes "consistent fs p"
  shows "consistent fs (fold (preloadTile fs lat) lons p)"
    and "set (warnings (fold (preloadTile fs lat) lons p)) =
           set (warnings p) \<union>
           {''Warning: Could not load tile '' @ getTileName (of_int lat) (of_int lon) | lon.
              lon \<in> set lons \<and> isl (fileTile fs (getTileName (of_int lat) (of_int lon)))}"
  using assms
proof (induction lons arbitrary: p)
  case Nil
  { case 1 then show ?case by simp }
  { case 2 then show ?case by simp }
next
  case (Cons a lons)
  { case 1 then show ?case
      using Cons.IH(1)[of "preloadTile fs lat a p"] by (simp add: preloadTile_consistent(1)) }
  { case 2 then show ?case
      using Cons.IH(2)[of "preloadTile fs lat a p"]
      by (auto simp add: preloadTile_consistent) }
qed

lemma preloadLats:
  assumes "consistent fs p"
  shows "consistent fs (fold (\<lambda>lat. fold (preloadTile fs lat) lons) lats p)"
    and "set (warnings (fold (\<lambda>lat. fold (preloadTile fs lat) lons) lats p)) =
           set (warnings p) \<union>
           {''Warning: Could not load tile '' @ getTileName (of_int lat) (of_int lon) | lat lon.
              lat \<in> set lats \<and> lon \<in> set lons \<and>
              isl (fileTile fs (getTileName (of_int lat) (of_int lon)))}"
  using assms
proof (induction lats arbitrary: p)
  case Nil
  { case 1 then show ?case by simp }
  { case 2 then show ?case by simp }
next
  case (Cons a lats)
  { case 1 then show ?case
      using Cons.IH(1)[of "fold (preloadTile fs a) lons p"] by (simp add: preloadLons(1)) }
  { case 2 then show ?case
      using Cons.IH(2)[of "fold (preloadTile fs a) lons p"]
      by (auto simp add: preloadLons) }
qed

lemma grid_cell_nth:
  assumes "row < h" "col < w" "length d = w * h"
  shows "(fold (\<lambda>row. fold (\<lambda>col d. d[row * w + col := f row col]) [0..<w]) [0..<h] d)
           ! (row * w + col) = f row col"
proof -
  have "row * w + col < Suc row * w" using assms(2) by simp
  also have "\<dots> \<le> h * w" using assms(1) by (intro mult_le_mono1) simp
  finally have lt: "row * w + col < h * w" .
  then have "row * w + col < length d" using assms(3) by (simp add: mult.commute)
  from fold_grid_nth(2)[OF this, of w f h] lt assms(2) show ?thesis by simp
qed

lemma loadBoundingBox_sound:
  fixes b :: BoundingBox
  defines "w \<equiv> \<lceil>(east b - west b) / arcSecond\<rceil>"
    and "h \<equiv> \<lceil>(north b - south b) / arcSecond\<rceil>"
  assumes con: "consistent fs p" and nonneg: "0 \<le> w * h"
  shows "\<exists>ed p'. loadBoundingBox fs b p = (Inr ed, p') \<and>
           width ed = w \<and> height ed = h \<and> length (data ed) = nat (w * h) \<and>
           (\<forall>i < nat w * nat h. data ed ! i = cellWord fs b (i div nat w) (i mod nat w)) \<and>
           set (warnings p') = set (warnings p) \<union>
             {''Warning: Could not load tile '' @ getTileName (of_int lat) (of_int lon) | lat lon.
                lat \<in> {\<lfloor>south b\<rfloor>..\<lfloor>north b\<rfloor>} \<and> lon \<in> {\<lfloor>west b\<rfloor>..\<lfloor>east b\<rfloor>} \<and>
                isl (fileTile fs (getTileName (of_int lat) (of_int lon)))} \<and>
           ((\<forall>row < nat h. \<forall>col < nat w.
                isl (pointElevation fs (north b - of_nat row * arcSecond)
                                       (west b + of_nat col * arcSecond)))
             \<longrightarrow> minElevation ed = PInf \<and> maxElevation ed = NInf)"
proof -
  let ?pre = "fold (\<lambda>lat. fold (preloadTile fs lat) [\<lfloor>west b\<rfloor>..\<lfloor>east b\<rfloor>])
               [\<lfloor>south b\<rfloor>..\<lfloor>north b\<rfloor>] p"
  let ?init = "\<lparr>sampler = ?pre, cells = replicate (nat (w * h)) 0, minElev = PInf, maxElev = NInf\<rparr>"
  let ?s = "fold (\<lambda>row. fold (sampleCell fs b w row) [0..<nat w]) [0..<nat h] ?init"
  let ?ed = "\<lparr>width = w, height = h, minLat = south b, maxLat = north b, minLon = west b,
              maxLon = east b, minElevation = minElev ?s, maxElevation = maxElev ?s,
              data = cells ?s\<rparr>"
  have res: "loadBoundingBox fs b p = (Inr ?ed, sampler ?s)"
    using nonneg by (simp add: loadBoundingBox_def w_def h_def Let_def)
  have c1: "consistent fs (sampler ?init)"
    using preloadLats(1)[OF con] by simp
  have cells: "cells ?s = fold (\<lambda>row. fold (\<lambda>col d. d[row * nat w + col := cellWord fs b row col])
                  [0..<nat w]) [0..<nat h] (replicate (nat (w * h)) 0)"
    using sampleRows(3)[OF c1] by simp
  have len: "length (cells ?s) = nat (w * h)"
    unfolding cells by (simp add: fold_grid_nth(1))
  have nth: "cells ?s ! i = cellWord fs b (i div nat w) (i mod nat w)" if "i < nat w * nat h" for i
  proof -
    have pos: "0 \<le> w" using that by (cases "0 \<le> w") simp_all
    have "nat (w * h) = nat w * nat h" using pos by (rule nat_mult_distrib)
    then have "i < length (replicate (nat (w * h)) (0::16 word))" using that by simp
    from fold_grid_nth(2)[OF this, of "nat w" "cellWord fs b" "nat h"] that
    show ?thesis unfolding cells by (simp add: mult.commute)
  qed
  have warn: "set (warnings (sampler ?s)) = set (warnings ?pre)"
    using sampleRows(2)[OF c1, of b w "[0..<nat w]" "[0..<nat h]"] by simp
  have mm: "minElev ?s = PInf \<and> maxElev ?s = NInf"
    if "\<forall>row < nat h. \<forall>col < nat w.
          isl (pointElevation fs (north b - of_nat row * arcSecond)
                                 (west b + of_nat col * arcSecond))"
    using sampleRows_failed[OF c1, of "[0..<nat h]" "[0..<nat w]" b w] that by simp
  show ?thesis
    using res len nth warn mm preloadLats(2)[OF con] by (intro exI[of _ ?ed] exI[of _ "sampler ?s"]) simp
qed

lemma heightCell_consistent:
  assumes "consistent fs (hs_parser s)"
  shows "consistent fs (hs_parser (heightCell fs b step z x s))"
    and "hs_row (heightCell fs b step z x s) = hs_row s @ [cellElev fs b step z x]"
    and "hs_heights (heightCell fs b step z x s) = hs_heights s"
proof -
  let ?lat = "north b - of_nat z * step" and ?lon = "west b + of_nat x * step"
  obtain r p' where g: "getElevation fs ?lat ?lon (hs_parser s) = (r, p')"
    by (cases "getElevation fs ?lat ?lon (hs_parser s)")
  from getElevation_consistent[OF assms, of ?lat ?lon] g
  have r: "pointElevation fs ?lat ?lon = r" and c: "consistent fs p'"
    by simp_all
  show "consistent fs (hs_parser (heightCell fs b step z x s))"
    using c by (cases r) (simp_all add: heightCell_def g Let_def)
  show "hs_row (heightCell fs b step z x s) = hs_row s @ [cellElev fs b step z x]"
    unfolding cellElev_def r by (cases r) (simp_all add: heightCell_def g Let_def)
  show "hs_heights (heightCell fs b step z x s) = hs_heights s"
    by (cases r) (simp_all add: heightCell_def g Let_def)
qed

lemma heightCells:
  assumes "consistent fs (hs_parser s)"
  shows "consistent fs (hs_parser (fold (heightCell fs b step z) xs s))"
    and "hs_row (fold (heightCell fs b step z) xs s) = hs_row s @ map (cellElev fs b step z) xs"
    and "hs_heights (fold (heightCell fs b step z) xs s) = hs_heights s"
  using assms by (induction xs arbitrary: s) (simp_all add: heightCell_consistent)

lemma heightRow_consistent:
  assumes "consistent fs (hs_parser s)"
  shows "consistent fs (hs_parser (heightRow fs b step w z s))"
    and "hs_heights (heightRow fs b step w z s) =
           hs_heights s @ [map (cellElev fs b step z) [0..<nat w]]"
  using assms heightCells[of fs "s\<lparr>hs_row := []\<rparr>" b step z "[0..<nat w]"]
  by (simp_all add: heightRow_def Let_def)

lemma heightRows:
  assumes "consistent fs (hs_parser s)"
  shows "consistent fs (hs_parser (fold (heightRow fs b step w) zs s))"
    and "hs_heights (fold (heightRow fs b step w) zs s) =
           hs_heights s @ map (\<lambda>z. map (cellElev fs b step z) [0..<nat w]) zs"
  using assms by (induction zs arbitrary: s) (simp_all add: heightRow_consistent)

text \<open>Both entry points hand back a consistent parser.\<close>

lemma loadBoundingBox_consistent:
  assumes "consistent fs p"
  shows "consistent fs (snd (loadBoundingBox fs b p))"
proof -
  let ?pre = "fold (\<lambda>lat. fold (preloadTile fs lat) [\<lfloor>west b\<rfloor>..\<lfloor>east b\<rfloor>])
               [\<lfloor>south b\<rfloor>..\<lfloor>north b\<rfloor>] p"
  have c: "consistent fs ?pre" using assms by (rule preloadLats(1))
  then have "consistent fs (sampler \<lparr>sampler = ?pre, cells = d, minElev = PInf, maxElev = NInf\<rparr>)" for d
    by simp
  from sampleRows(1)[OF this] c show ?thesis
    by (simp add: loadBoundingBox_def Let_def)
qed

lemma generateHeightmap_consistent:
  assumes "consistent fs p"
  shows "consistent fs (snd (generateHeightmap fs cfg p))"
proof -
  have "consistent fs (hs_parser \<lparr>hs_parser = p, hs_row = [], hs_heights = [], hs_min = PInf, hs_max = NInf\<rparr>)"
    using assms by simp
  from heightRows(1)[OF this] assms show ?thesis
    by (simp add: generateHeightmap_def scanHeights_def Let_def)
qed

lemma scanHeights_grid:
  assumes "consistent fs p"
  shows "hs_heights (scanHeights fs cfg p) =
           map (\<lambda>z. map (cellElev fs (bbox cfg) (arcSecond * downsample cfg) z)
                  [0..<nat \<lceil>(east (bbox cfg) - west (bbox cfg)) / (arcSecond * downsample cfg)\<rceil>])
             [0..<nat \<lceil>(north (bbox cfg) - south (bbox cfg)) / (arcSecond * downsample cfg)\<rceil>]"
  using assms by (simp add: scanHeights_def Let_def heightRows(2))

text \<open>
  A heightmap built with a non-zero scale from at least one valid sample, with dimensions
  that are not negative, is well formed.
\<close>

lemma levelOf_finite:
  assumes "scale cfg \<noteq> 0"
  shows "isFin (levelOf cfg (Fin m) e)"
  using assms by (simp add: levelOf_def jsub_def)

lemma generateHeightmap_wellFormed:
  assumes "consistent fs p"
    and "fst (generateHeightmap fs cfg p) = Inr hm"
    and "isFin (hs_min (scanHeights fs cfg p))"
    and "scale cfg \<noteq> 0"
    and "0 \<le> hm_width hm" and "0 \<le> hm_length hm"
  shows "wellFormed hm"
proof -
  let ?step = "arcSecond * downsample cfg"
  let ?w = "\<lceil>(east (bbox cfg) - west (bbox cfg)) / ?step\<rceil>"
  let ?len = "\<lceil>(north (bbox cfg) - south (bbox cfg)) / ?step\<rceil>"
  obtain m where m: "hs_min (scanHeights fs cfg p) = Fin m"
    using assms(3) by (auto simp add: isFin_iff)
  have hm: "hm = \<lparr>hm_width = ?w, hm_length = ?len,
     heights = map (map (levelOf cfg (Fin m))) (hs_heights (scanHeights fs cfg p)),
     minY = Fin (baseY cfg),
     maxY = jadd (Fin (baseY cfg)) (jceil (jdiv (jsub (hs_max (scanHeights fs cfg p))
              (Fin m)) (Fin (scale cfg))))\<rparr>"
    using assms(2) by (simp add: generateHeightmap_def Let_def m split: if_splits)
  have w: "0 \<le> ?w" and l: "0 \<le> ?len"
    using assms(5,6) by (simp_all add: hm)
  show ?thesis
    unfolding wellFormed_def hm
    using w l assms(4) by (auto simp add: scanHeights_grid[OF assms(1)] levelOf_finite)
qed

lemma heightRow_no_columns:
  assumes "w \<le> 0"
  shows "hs_heights (heightRow fs b step w z s) = hs_heights s @ [[]]"
  using assms by (simp add: heightRow_def)

lemma heightRows_no_columns:
  assumes "w \<le> 0"
  shows "hs_heights (fold (heightRow fs b step w) zs s) = hs_heights s @ replicate (length zs) []"
  using assms
  by (induction zs arbitrary: s) (simp_all add: heightRow_no_columns replicate_append_same)

lemma fileTile_missing: "fs n = None \<Longrightarrow> fileTile fs n = Inl (TileNotFound n)"
  by (simp add: fileTile_def)

lemma pointElevation_missing:
  "fs (getTileName lat lon) = None \<Longrightarrow>
     pointElevation fs lat lon = Inl (TileNotFound (getTileName lat lon))"
  by (simp add: pointElevation_def fileTile_missing)

lemma ceiling_div_nonpos:
  fixes a s :: rat
  assumes "a \<le> 0" "0 < s"
  shows "\<lceil>a / s\<rceil> \<le> 0"
proof -
  have "a / s \<le> 0" using assms by (simp add: divide_le_0_iff)
  then show ?thesis by (simp add: ceiling_le_iff)
qed

lemma arcSecond_pos: "0 < arcSecond"
  by (simp add: arcSecond_def)


lemma cellWord_missing:
  "fs (getTileName (north b - of_nat row * arcSecond) (west b + of_nat col * arcSecond)) = None
   \<Longrightarrow> cellWord fs b row col = 0"
  by (simp add: cellWord_def pointElevation_missing)


section \<open>Fallback cells\<close>




section \<open>Configurations that are not checked\<close>

text \<open>
  A negative scale with a box whose west is east of its east, and a zero scale with a
  proper box: the build returns a heightmap for both.
\<close>

theorem invalid_configurations_return:
  "scale degenerateConfig \<le> 0 \<and>
   east (bbox degenerateConfig) \<le> west (bbox degenerateConfig) \<and>
   north (bbox degenerateConfig) \<le> south (bbox degenerateConfig) \<and>
   fst (generateHeightmap flatFiles degenerateConfig newSRTMParser) =
     Inr \<lparr>hm_width = - 3600, hm_length = - 3600, heights = [], minY = Fin 64, maxY = PInf\<rparr> \<and>
   scale zeroScaleConfig \<le> 0 \<and>
   fst (generateHeightmap flatFiles zeroScaleConfig newSRTMParser) =
     Inr \<lparr>hm_width = 2, hm_length = 1, heights = [[NaN, NInf]], minY = Fin 64, maxY = NaN\<rparr>"
  by code_simp

text \<open>
  C2 (as amended). Nothing checks a configuration: for every configuration with a positive
  \<open>downsample\<close>, whatever its scale and its box, \<open>generateHeightmap\<close> raises no error and
  returns a heightmap; for a degenerate box (\<open>west \<ge> east\<close> or \<open>south \<ge> north\<close>) the
  heightmap has no cells.
\<close>

theorem heightmap_built_without_validation:
  assumes "0 < downsample cfg"
  shows "\<exists>hm. fst (generateHeightmap fs cfg p) = Inr hm \<and>
           (east (bbox cfg) \<le> west (bbox cfg) \<or> north (bbox cfg) \<le> south (bbox cfg)
            \<longrightarrow> concat (heights hm) = [])"
proof -
  let ?step = "arcSecond * downsample cfg"
  let ?w = "\<lceil>(east (bbox cfg) - west (bbox cfg)) / ?step\<rceil>"
  let ?len = "\<lceil>(north (bbox cfg) - south (bbox cfg)) / ?step\<rceil>"
  let ?hm = "\<lparr>hm_width = ?w, hm_length = ?len,
     heights = map (map (levelOf cfg (hs_min (scanHeights fs cfg p)))) (hs_heights (scanHeights fs cfg p)),
     minY = Fin (baseY cfg),
     maxY = jadd (Fin (baseY cfg)) (jceil (jdiv (jsub (hs_max (scanHeights fs cfg p))
              (hs_min (scanHeights fs cfg p))) (Fin (scale cfg))))\<rparr>"
  have step: "0 < ?step" using assms arcSecond_pos by simp
  have "?step \<noteq> 0" using assms arcSecond_pos by simp
  then have gen: "fst (generateHeightmap fs cfg p) = Inr ?hm"
    by (simp only: generateHeightmap_def Let_def if_False fst_conv)
  have "concat (heights ?hm) = []"
    if d: "east (bbox cfg) \<le> west (bbox cfg) \<or> north (bbox cfg) \<le> south (bbox cfg)"
  proof (cases "north (bbox cfg) \<le> south (bbox cfg)")
    case True
    then have "?len \<le> 0" using step by (intro ceiling_div_nonpos) simp_all
    then show ?thesis by (simp add: scanHeights_def Let_def)
  next
    case False
    with d have "east (bbox cfg) \<le> west (bbox cfg)" by simp
    then have "?w \<le> 0" using step by (intro ceiling_div_nonpos) simp_all
    then show ?thesis by (simp add: scanHeights_def Let_def heightRows_no_columns)
  qed
  with gen show ?thesis by blast
qed

theorem heightmap_built_without_validation_witness:
  "0 < downsample degenerateConfig \<and>
   east (bbox degenerateConfig) \<le> west (bbox degenerateConfig) \<and>
   (\<exists>hm. fst (generateHeightmap flatFiles degenerateConfig newSRTMParser) = Inr hm \<and>
         concat (heights hm) = [])"
proof -
  have h: "0 < downsample degenerateConfig"
    and d: "east (bbox degenerateConfig) \<le> west (bbox degenerateConfig)"
    by (simp_all add: degenerateConfig_def)
  from heightmap_built_without_validation[OF h, of flatFiles newSRTMParser] d h
  show ?thesis by blast
qed

section \<open>Tile-load failures\<close>


lemma valid_box_dimensions:
  assumes "west b < east b" "south b < north b"
  shows "0 < \<lceil>(east b - west b) / arcSecond\<rceil>" and "0 < \<lceil>(north b - south b) / arcSecond\<rceil>"
  using assms arcSecond_pos by simp_all



text \<open>The region query over \<open>borderBox\<close>, evaluated: one cell of each kind and one warning.\<close>

lemma border_region_evaluated:
  "fst (loadBoundingBox flatFiles borderBox newSRTMParser) =
     Inr \<lparr>width = 2, height = 1, minLat = 46 + 1 / 2 - 1 / 7200, maxLat = 46 + 1 / 2,
          minLon = 29 - 1 / 7200, maxLon = 29 + 1 / 3600,
          minElevation = Fin 100, maxElevation = Fin 100, data = [100, 0]\<rparr> \<and>
   warnings (snd (loadBoundingBox flatFiles borderBox newSRTMParser)) =
     [''Warning: Could not load tile N46E029'']"
  by code_simp

section \<open>The elevation range of a region\<close>

text \<open>
  C7. A no-data sample does enter the reported range. In a tile of elevation 100 with one
  no-data sample, a region of two cells, the second on that sample, reports the range 0 to
  100: \<open>getElevation\<close> has replaced the sentinel by 0 before the test \<open>elev > -1000\<close> sees it.
\<close>

theorem nodata_sample_enters_range:
  "sampleIndex (north holeBox - of_nat 0 * arcSecond) (west holeBox + of_nat 1 * arcSecond) = 6481801 \<and>
   fst (loadBoundingBox holeFiles holeBox newSRTMParser) =
     Inr \<lparr>width = 2, height = 1, minLat = 46 + 1 / 2 - 1 / 7200, maxLat = 46 + 1 / 2,
          minLon = 28 + 1 / 7200, maxLon = 28 + 1 / 7200 + 1 / 2400,
          minElevation = Fin 0, maxElevation = Fin 100, data = [100, 0]\<rparr>"
  by code_simp

section \<open>Dimensions\<close>



section \<open>A region without any tile\<close>

text \<open>
  C10. If the tile file of every sample of a region query over a proper box is absent, then
  \<open>loadBoundingBox\<close> still returns a field; all its data cells are 0, its \<open>minElevation\<close> is
  \<open>Infinity\<close> and its \<open>maxElevation\<close> is \<open>-Infinity\<close>.
\<close>

theorem all_tiles_missing:
  assumes "consistent fs p"
    and "west b < east b" and "south b < north b"
    and "\<forall>row col. int row < \<lceil>(north b - south b) / arcSecond\<rceil> \<longrightarrow>
                    int col < \<lceil>(east b - west b) / arcSecond\<rceil> \<longrightarrow>
           fs (getTileName (north b - of_nat row * arcSecond) (west b + of_nat col * arcSecond)) = None"
  shows "\<exists>ed. fst (loadBoundingBox fs b p) = Inr ed \<and>
           data ed = replicate (nat (width ed * height ed)) 0 \<and>
           minElevation ed = PInf \<and> maxElevation ed = NInf"
proof -
  let ?w = "\<lceil>(east b - west b) / arcSecond\<rceil>" and ?h = "\<lceil>(north b - south b) / arcSecond\<rceil>"
  have pos: "0 < ?w" "0 < ?h" using valid_box_dimensions[OF assms(2,3)] by simp_all
  then have "0 \<le> ?w * ?h" by simp
  from loadBoundingBox_sound[OF assms(1) this]
  obtain ed p' where l: "loadBoundingBox fs b p = (Inr ed, p')"
    and d: "width ed = ?w" "height ed = ?h" and len: "length (data ed) = nat (?w * ?h)"
    and n: "\<forall>i < nat ?w * nat ?h. data ed ! i = cellWord fs b (i div nat ?w) (i mod nat ?w)"
    and mm: "(\<forall>row < nat ?h. \<forall>col < nat ?w.
                isl (pointElevation fs (north b - of_nat row * arcSecond)
                                       (west b + of_nat col * arcSecond)))
             \<longrightarrow> minElevation ed = PInf \<and> maxElevation ed = NInf"
    by blast
  have miss: "fs (getTileName (north b - of_nat row * arcSecond) (west b + of_nat col * arcSecond)) = None"
    if "row < nat ?h" "col < nat ?w" for row col
    using that assms(4) by (simp add: zless_nat_eq_int_zless)
  have "minElevation ed = PInf \<and> maxElevation ed = NInf"
    using mm miss by (simp add: pointElevation_missing)
  moreover have "data ed = replicate (nat (width ed * height ed)) 0"
  proof (rule nth_equalityI)
    show "length (data ed) = length (replicate (nat (width ed * height ed)) (0::16 word))"
      using len d by simp
    fix i assume "i < length (data ed)"
    then have i: "i < nat ?w * nat ?h"
      using len pos by (simp add: nat_mult_distrib)
    have "i div nat ?w < nat ?h"
      using i pos by (simp add: less_mult_imp_div_less mult.commute)
    moreover have "i mod nat ?w < nat ?w" using pos by simp
    ultimately have "cellWord fs b (i div nat ?w) (i mod nat ?w) = 0"
      using miss by (simp add: cellWord_missing)
    with n i have "data ed ! i = 0" by simp
    then show "data ed ! i = replicate (nat (width ed * height ed)) 0 ! i"
      using i d pos by (simp add: nat_mult_distrib)
  qed
  ultimately show ?thesis using l by simp
qed

theorem all_tiles_missing_witness:
  "consistent flatFiles newSRTMParser \<and>
   west eastBox < east eastBox \<and> south eastBox < north eastBox \<and>
   (\<exists>ed. fst (loadBoundingBox flatFiles eastBox newSRTMParser) = Inr ed \<and>
         data ed = replicate (nat (width ed * height ed)) 0 \<and>
         minElevation ed = PInf \<and> maxElevation ed = NInf)"
proof -
  have c: "consistent flatFiles newSRTMParser"
    by (rule consistent_new)
  have v: "west eastBox < east eastBox" "south eastBox < north eastBox"
    by (simp_all add: eastBox_def)
  have h: "\<lceil>(north eastBox - south eastBox) / arcSecond\<rceil> = 1"
    and w: "\<lceil>(east eastBox - west eastBox) / arcSecond\<rceil> = 2"
    by code_simp+
  have m0: "flatFiles (getTileName (north eastBox - of_nat 0 * arcSecond) (west eastBox + of_nat 0 * arcSecond)) = None"
    and m1: "flatFiles (getTileName (north eastBox - of_nat 0 * arcSecond) (west eastBox + of_nat 1 * arcSecond)) = None"
    by code_simp+
  have m: "\<forall>row col. int row < \<lceil>(north eastBox - south eastBox) / arcSecond\<rceil> \<longrightarrow>
                    int col < \<lceil>(east eastBox - west eastBox) / arcSecond\<rceil> \<longrightarrow>
           flatFiles (getTileName (north eastBox - of_nat row * arcSecond)
                                  (west eastBox + of_nat col * arcSecond)) = None"
  proof (intro allI impI)
    fix row col :: nat
    assume "int row < \<lceil>(north eastBox - south eastBox) / arcSecond\<rceil>"
      and "int col < \<lceil>(east eastBox - west eastBox) / arcSecond\<rceil>"
    then have "row = 0" and "col = 0 \<or> col = 1"
      unfolding h w by auto
    then show "flatFiles (getTileName (north eastBox - of_nat row * arcSecond)
                                  (west eastBox + of_nat col * arcSecond)) = None"
      using m0 m1 by auto
  qed
  from all_tiles_missing[OF c v m] c v show ?thesis by blast
qed

end
